theory Spec2Isabelle
  imports Complex_Main "HOL-Library.Multiset" "HOL-Library.Char_ord" "HOL-Library.List_Lexorder"
    "HOL-Library.Log_Nat"
begin

section \<open>JavaScript numbers\<close>

text \<open>
  A JavaScript number is an IEEE 754 binary64 value. The finite ones are rationals, and
  finite numbers are all that the handlers can read back from DynamoDB: its document
  client refuses \<^verbatim>\<open>NaN\<close> and the infinities, and its numbers stay below \<open>10 ^ 126\<close> in
  magnitude. Numbers are modelled as \<^typ>\<open>rat\<close>, and every arithmetic operation of the
  source is the exact operation followed by \<open>fl\<close>, the rounding to the nearest binary64
  value: 53 significant bits, a tie going to the even neighbour, gradual underflow below
  \<open>pow2 (- 1022)\<close>. The sign of a zero is not modelled.

  \<open>fl\<close> itself has no largest exponent. Where a result can leave the binary64 range, in
  \<open>calculateScoreDifferential\<close>, whose score comes from the request, every operation is
  followed by \<open>finite_number\<close>, which is \<open>None\<close> where JavaScript has an infinity or
  \<^verbatim>\<open>NaN\<close>. The sums and products over at most 20 numbers read from DynamoDB stay far
  inside the range.
\<close>

definition pow2 :: "int \<Rightarrow> rat" where
  "pow2 k = (if 0 \<le> k then 2 ^ nat k else 1 / 2 ^ nat (- k))"

text \<open>
  The binary exponent of a number other than zero:
  \<open>pow2 (expo x) \<le> \<bar>x\<bar>\<close> and \<open>\<bar>x\<bar> < pow2 (expo x + 1)\<close>.
\<close>

definition expo :: "rat \<Rightarrow> int" where
  "expo x =
     (let a = \<bar>x\<bar>
      in if 1 \<le> a then bitlen \<lfloor>a\<rfloor> - 1
         else (let k = bitlen \<lfloor>1 / a\<rfloor> - 1
               in if 1 / a = pow2 k then - k else - k - 1))"

text \<open>The nearest integer, a tie going to the even one.\<close>

definition round_even :: "rat \<Rightarrow> int" where
  "round_even y =
     (let f = \<lfloor>y\<rfloor>; d = y - of_int f
      in if d < 1 / 2 then f
         else if 1 / 2 < d then f + 1
         else if even f then f else f + 1)"

text \<open>The distance of neighbouring binary64 values around \<open>x\<close>.\<close>

definition quantum :: "rat \<Rightarrow> rat" where
  "quantum x = pow2 (max (expo x) (- 1022) - 52)"

definition fl :: "rat \<Rightarrow> rat" where
  "fl x = (if x = 0 then 0 else of_int (round_even (x / quantum x)) * quantum x)"

definition fadd :: "rat \<Rightarrow> rat \<Rightarrow> rat" where
  "fadd a b = fl (a + b)"

definition fsub :: "rat \<Rightarrow> rat \<Rightarrow> rat" where
  "fsub a b = fl (a - b)"

definition fmul :: "rat \<Rightarrow> rat \<Rightarrow> rat" where
  "fmul a b = fl (a * b)"

text \<open>The quotient by a divisor other than zero.\<close>

definition fdiv :: "rat \<Rightarrow> rat \<Rightarrow> rat" where
  "fdiv a b = fl (a / b)"

text \<open>
  A value below \<open>pow2 1024\<close> in magnitude is a finite number; from there on binary64
  overflows.
\<close>

definition finite_number :: "rat \<Rightarrow> rat option" where
  "finite_number x = (if x = 0 \<or> expo x < 1024 then Some x else None)"

text \<open>
  \<^verbatim>\<open>Math.round\<close>: the nearest integer, a tie going towards plus infinity. The result is
  exact for every binary64 argument.
\<close>

definition Math_round :: "rat \<Rightarrow> rat" where
  "Math_round x = of_int \<lfloor>x + 1 / 2\<rfloor>"

definition Math_max :: "rat \<Rightarrow> rat \<Rightarrow> rat" where
  "Math_max a b = (if a < b then b else a)"

definition Math_min :: "rat \<Rightarrow> rat \<Rightarrow> rat" where
  "Math_min a b = (if b < a then b else a)"

text \<open>\<^verbatim>\<open>xs.reduce((sum, diff) => sum + diff, 0)\<close>\<close>

definition reduce_sum :: "rat list \<Rightarrow> rat" where
  "reduce_sum xs = foldl (\<lambda>sum diff. fadd sum diff) 0 xs"

text \<open>
  \<^verbatim>\<open>xs.sort((a, b) => a - b)\<close>: ascending, stable. The difference of two distinct
  binary64 values never rounds to zero, so the comparator orders them as \<open>\<le>\<close> does.
\<close>

definition sort_ascending :: "rat list \<Rightarrow> rat list" where
  "sort_ascending xs = sort xs"

text \<open>\<^verbatim>\<open>xs.slice(0, n)\<close>\<close>

definition slice0 :: "nat \<Rightarrow> 'a list \<Rightarrow> 'a list" where
  "slice0 n xs = take n xs"


section \<open>Score differential\<close>

text \<open>
  \<^verbatim>\<open>calculateScoreDifferential\<close> (roundController). The default value 18 of
  \<^verbatim>\<open>numberOfHoles\<close> takes the same branch as every value other than 9. An operand that is
  not finite makes every later result not finite, and so does a slope of zero.
\<close>

definition calculateScoreDifferential :: "rat \<Rightarrow> rat \<Rightarrow> rat \<Rightarrow> nat \<Rightarrow> rat option" where
  "calculateScoreDifferential totalScore courseRating slopeRating numberOfHoles =
     Option.bind (finite_number (if numberOfHoles = 9 then fmul totalScore 2 else totalScore))
       (\<lambda>adjustedScore.
     Option.bind (finite_number (if numberOfHoles = 9 then fmul courseRating 2 else courseRating))
       (\<lambda>adjustedRating.
     Option.bind (finite_number (fsub adjustedScore adjustedRating)) (\<lambda>difference.
     Option.bind (finite_number (fmul difference 113)) (\<lambda>product.
     if slopeRating = 0 then None else finite_number (fdiv product slopeRating)))))"

section \<open>Handicap index\<close>

text \<open>
  The pure part of \<^verbatim>\<open>updateUserHandicap\<close>, as a function of the score differentials of
  the rounds that its query returned (\<^verbatim>\<open>rounds.map(r => r.scoreDifferential)\<close>).
\<close>

definition numberOfScoresToUse :: "nat \<Rightarrow> nat" where
  "numberOfScoresToUse len =
     (if len \<ge> 20 then 8
      else if len \<ge> 19 then 7
      else if len \<ge> 16 then 6
      else if len \<ge> 12 then 5
      else if len \<ge> 9 then 4
      else if len \<ge> 6 then 3
      else if len \<ge> 3 then 2
      else 1)"

definition bestDifferentials :: "rat list \<Rightarrow> rat list" where
  "bestDifferentials ds = slice0 (numberOfScoresToUse (length ds)) (sort_ascending ds)"

definition averageDifferential :: "rat list \<Rightarrow> rat" where
  "averageDifferential ds =
     fdiv (reduce_sum (bestDifferentials ds)) (of_nat (length (bestDifferentials ds)))"

definition newHandicap :: "rat list \<Rightarrow> rat" where
  "newHandicap ds = fdiv (Math_round (fmul (averageDifferential ds) 10)) 10"

text \<open>The value that \<^verbatim>\<open>updateUserHandicap\<close> stores as the user's handicap.\<close>

definition computeHandicap :: "rat list \<Rightarrow> rat" where
  "computeHandicap ds =
     (if length ds = 0 then 54
      else Math_max 0 (Math_min 54 (newHandicap ds)))"


section \<open>Handicap history\<close>

text \<open>
  The body of the loop of \<^verbatim>\<open>getHandicapHistory\<close> (userController). The count is
  \<^verbatim>\<open>Math.floor(currentRounds.length * 0.4)\<close> in the middle branch; the literals \<^verbatim>\<open>0.4\<close> and
  \<^verbatim>\<open>0.96\<close> are the binary64 values nearest to them.
\<close>

definition countToUse :: "nat \<Rightarrow> nat" where
  "countToUse len =
     (if len \<ge> 20 then 8
      else if len \<ge> 6 then nat \<lfloor>fmul (of_nat len) (fl (4 / 10))\<rfloor>
      else if len \<ge> 3 then 1
      else 1)"

text \<open>The variable \<^verbatim>\<open>handicap\<close> after the \<^verbatim>\<open>if\<close>, for the differentials of \<^verbatim>\<open>currentRounds\<close>.\<close>

definition historyHandicap :: "rat list \<Rightarrow> rat" where
  "historyHandicap currentDiffs =
     (if length currentDiffs \<ge> 3 then
        (let sortedDiffs = sort_ascending currentDiffs;
             bestDiffs = slice0 (countToUse (length currentDiffs)) sortedDiffs;
             avgDiff = fdiv (reduce_sum bestDiffs) (of_nat (length bestDiffs))
         in Math_max 0 (Math_min 54 (fmul avgDiff (fl (96 / 100)))))
      else 54)"

record historyEntry =
  entry_date :: string
  entry_handicap :: rat
  entry_scoreDifferential :: rat

text \<open>
  The loop over \<^verbatim>\<open>i\<close>, on the dates and differentials of the rounds in chronological
  order: entry \<open>i\<close> is computed from \<^verbatim>\<open>rounds.slice(0, i + 1)\<close>.
\<close>

definition historyAt :: "(string \<times> rat) list \<Rightarrow> nat \<Rightarrow> historyEntry" where
  "historyAt rounds i =
     (let currentRounds = slice0 (i + 1) rounds;
          handicap = historyHandicap (map snd currentRounds)
      in \<lparr> entry_date = fst (rounds ! i),
           entry_handicap = fdiv (Math_round (fmul handicap 10)) 10,
           entry_scoreDifferential = snd (rounds ! i) \<rparr>)"

definition handicapHistory :: "(string \<times> rat) list \<Rightarrow> historyEntry list" where
  "handicapHistory rounds = map (historyAt rounds) [0 ..< length rounds]"


section \<open>The DynamoDB tables and the handlers' effects\<close>

text \<open>
  The handlers of roundController and userController read and write three DynamoDB
  tables through \<^verbatim>\<open>dynamodb.send\<close>, which may reject. The request data are the fields
  that the handlers read (the validation schemas live in another module).
  Time stamps (\<^verbatim>\<open>createdAt\<close>, \<^verbatim>\<open>updatedAt\<close>) are left out. The handlers are modelled for
  an authenticated request: \<^verbatim>\<open>req.user?.userId\<close> is a string. The Norwegian letters of
  the response messages are written in ASCII.
\<close>

record hole =
  strokes :: rat
  par :: rat

record playedCourse =
  courseId :: string
  courseName :: string
  teeColor :: string
  numberOfHoles :: nat
  date :: string

record roundData = playedCourse +
  players :: "string list"
  holes :: "hole list"

record round = roundData +
  roundId :: string
  userId :: string
  totalScore :: rat
  totalPar :: rat
  scoreDifferential :: rat

record playerScore =
  playerId :: string
  scoreHoles :: "hole list"

record multiPlayerRoundData = playedCourse +
  playerScores :: "playerScore list"

record course =
  rating :: "string \<rightharpoonup> rat"
  slope :: "string \<rightharpoonup> rat"

text \<open>
  The commands that the modelled handlers send. \<open>QueryCommand\<close> is a query of the index
  \<^verbatim>\<open>userId-date-index\<close> of the rounds table: the user, the optional condition on the
  date, the optional filter on the course, \<^verbatim>\<open>ScanIndexForward\<close> and \<^verbatim>\<open>Limit\<close>.
  \<open>UpdateCommand\<close> is the update of a user's handicap.
\<close>

datatype command =
    QueryCommand string "string option" "string option" bool "nat option"
  | GetCourse string
  | GetUser string
  | GetRound string
  | PutCommand round
  | UpdateCommand string rat
  | DeleteCommand string

datatype error = Rejected command | SpecialNumericValue

datatype logEntry =
    HandicapUpdated string rat nat
  | LogError string error

text \<open>
  \<open>outcomes\<close> decides which sends reject: each command has the list of the outcomes of
  its coming sends, \<open>True\<close> for a rejection; past the end of the list a send succeeds.
  A rejected send leaves the tables as they are. \<open>uuids\<close> are the coming results of
  \<^verbatim>\<open>uuidv4()\<close>; when none is left the identifier is the empty string.
\<close>

record world =
  ROUNDS :: "round list"
  USERS :: "string \<rightharpoonup> rat"
  COURSES :: "string \<rightharpoonup> course"
  outcomes :: "command \<Rightarrow> bool list"
  logged :: "logEntry list"
  uuids :: "string list"

type_synonym 'a io = "world \<Rightarrow> (error + 'a) \<times> world"

definition ret :: "'a \<Rightarrow> 'a io" where
  "ret x w = (Inr x, w)"

definition throw :: "error \<Rightarrow> 'a io" where
  "throw e w = (Inl e, w)"

definition bnd :: "'a io \<Rightarrow> ('a \<Rightarrow> 'b io) \<Rightarrow> 'b io" where
  "bnd m f w = (case m w of (Inl e, w') \<Rightarrow> (Inl e, w') | (Inr x, w') \<Rightarrow> f x w')"

definition try_catch :: "'a io \<Rightarrow> (error \<Rightarrow> 'a io) \<Rightarrow> 'a io" where
  "try_catch m handler w = (case m w of (Inl e, w') \<Rightarrow> handler e w' | (Inr x, w') \<Rightarrow> (Inr x, w'))"

text \<open>
  \<^verbatim>\<open>Promise.all\<close> over promises that are started in the order of the list: every one
  runs, and the result is the first rejection, if there is one.
\<close>

fun Promise_all :: "'a io list \<Rightarrow> 'a list io" where
  "Promise_all [] w = (Inr [], w)"
| "Promise_all (p # ps) w =
     (case p w of (r, w1) \<Rightarrow>
        (case Promise_all ps w1 of (rs, w2) \<Rightarrow>
           (case r of
              Inl e \<Rightarrow> (Inl e, w2)
            | Inr x \<Rightarrow> (case rs of Inl e \<Rightarrow> (Inl e, w2) | Inr xs \<Rightarrow> (Inr (x # xs), w2)))))"

definition logger :: "logEntry \<Rightarrow> unit io" where
  "logger entry w = (Inr (), w\<lparr>logged := logged w @ [entry]\<rparr>)"

definition uuidv4 :: "string io" where
  "uuidv4 w = (case uuids w of [] \<Rightarrow> (Inr [], w) | u # us \<Rightarrow> (Inr u, w\<lparr>uuids := us\<rparr>))"

definition dynamodb_send :: "command \<Rightarrow> (world \<Rightarrow> 'a \<times> world) \<Rightarrow> 'a io" where
  "dynamodb_send c effect w =
     (case outcomes w c of
        [] \<Rightarrow> (case effect w of (x, w') \<Rightarrow> (Inr x, w'))
      | rejected # rest \<Rightarrow>
          (let w0 = w\<lparr>outcomes := (outcomes w)(c := rest)\<rparr>
           in if rejected then (Inl (Rejected c), w0)
              else (case effect w0 of (x, w') \<Rightarrow> (Inr x, w'))))"

text \<open>The index, by ascending date; rounds of one date stay in the order of the table.\<close>

definition userId_date_index :: "round list \<Rightarrow> string \<Rightarrow> round list" where
  "userId_date_index tbl uid = sort_key date (filter (\<lambda>r. userId r = uid) tbl)"

text \<open>\<^verbatim>\<open>Limit\<close> cuts the page before the filter expression is applied.\<close>

definition runQuery ::
  "string \<Rightarrow> string option \<Rightarrow> string option \<Rightarrow> bool \<Rightarrow> nat option \<Rightarrow> round list \<Rightarrow> round list" where
  "runQuery uid dateEq courseEq scanIndexForward limit tbl =
     (let keyed = filter (\<lambda>r. case dateEq of None \<Rightarrow> True | Some d \<Rightarrow> date r = d)
                    (userId_date_index tbl uid);
          ordered = (if scanIndexForward then keyed else rev keyed);
          page = (case limit of None \<Rightarrow> ordered | Some n \<Rightarrow> take n ordered)
      in filter (\<lambda>r. case courseEq of None \<Rightarrow> True | Some c \<Rightarrow> courseId r = c) page)"

definition send_QueryCommand ::
  "string \<Rightarrow> string option \<Rightarrow> string option \<Rightarrow> bool \<Rightarrow> nat option \<Rightarrow> round list io" where
  "send_QueryCommand uid dateEq courseEq scanIndexForward limit =
     dynamodb_send (QueryCommand uid dateEq courseEq scanIndexForward limit)
       (\<lambda>w. (runQuery uid dateEq courseEq scanIndexForward limit (ROUNDS w), w))"

definition send_GetCourse :: "string \<Rightarrow> course option io" where
  "send_GetCourse key = dynamodb_send (GetCourse key) (\<lambda>w. (COURSES w key, w))"

definition send_GetUser :: "string \<Rightarrow> rat option io" where
  "send_GetUser key = dynamodb_send (GetUser key) (\<lambda>w. (USERS w key, w))"

definition send_GetRound :: "string \<Rightarrow> round option io" where
  "send_GetRound key =
     dynamodb_send (GetRound key) (\<lambda>w. (find (\<lambda>r. roundId r = key) (ROUNDS w), w))"

definition send_PutCommand :: "round \<Rightarrow> unit io" where
  "send_PutCommand item =
     dynamodb_send (PutCommand item)
       (\<lambda>w. ((), w\<lparr>ROUNDS := filter (\<lambda>r. roundId r \<noteq> roundId item) (ROUNDS w) @ [item]\<rparr>))"

definition send_UpdateCommand :: "string \<Rightarrow> rat \<Rightarrow> unit io" where
  "send_UpdateCommand key handicap =
     dynamodb_send (UpdateCommand key handicap)
       (\<lambda>w. ((), w\<lparr>USERS := (USERS w)(key \<mapsto> handicap)\<rparr>))"

definition send_DeleteCommand :: "string \<Rightarrow> unit io" where
  "send_DeleteCommand key =
     dynamodb_send (DeleteCommand key)
       (\<lambda>w. ((), w\<lparr>ROUNDS := filter (\<lambda>r. roundId r \<noteq> key) (ROUNDS w)\<rparr>))"


subsection \<open>updateUserHandicap\<close>

definition updateUserHandicap :: "string \<Rightarrow> unit io" where
  "updateUserHandicap uid =
     try_catch
       (bnd (send_QueryCommand uid None None False (Some 20)) (\<lambda>rounds.
          if length rounds = 0 then
            bnd (send_UpdateCommand uid 54) (\<lambda>_. ret ())
          else
            (let ds = map scoreDifferential rounds
             in bnd (send_UpdateCommand uid (Math_max 0 (Math_min 54 (newHandicap ds)))) (\<lambda>_.
                  logger (HandicapUpdated uid (newHandicap ds) (length rounds))))))
       (\<lambda>error. logger (LogError ''Error updating handicap:'' error))"

subsection \<open>The handlers that change the rounds\<close>

datatype body =
    Message string
  | RoundBody round
  | RoundsCreated nat "round list"
  | RoundsDeleted nat
  | History "historyEntry list"

datatype response = Response nat body

text \<open>
  A rating or slope that the course lacks for the tee is \<^verbatim>\<open>undefined\<close> and makes the
  differential \<^verbatim>\<open>NaN\<close>; so does a division by a slope of zero (or gives an infinity).
\<close>

definition courseDifferential :: "course \<Rightarrow> string \<Rightarrow> nat \<Rightarrow> rat \<Rightarrow> rat option" where
  "courseDifferential crs tee nHoles score =
     (let courseRating = (if nHoles = 9 then map_option (\<lambda>r. fdiv r 2) (rating crs tee)
                          else rating crs tee);
          slopeRating = slope crs tee
      in case courseRating of
           None \<Rightarrow> None
         | Some cr \<Rightarrow> (case slopeRating of
                         None \<Rightarrow> None
                       | Some sr \<Rightarrow> calculateScoreDifferential score cr sr nHoles))"

text \<open>
  \<^verbatim>\<open>createRound\<close>. The document client refuses to marshal a number that is not finite,
  so the \<open>PutCommand\<close> of a round without a finite differential throws.
\<close>

definition createRound :: "string \<Rightarrow> roundData \<Rightarrow> response io" where
  "createRound uid rd =
     try_catch
       (bnd (send_GetCourse (courseId rd)) (\<lambda>courseItem.
          case courseItem of
            None \<Rightarrow> ret (Response 404 (Message ''Golfbane ikke funnet''))
          | Some crs \<Rightarrow>
              (let total_score = reduce_sum (map strokes (holes rd));
                   total_par = reduce_sum (map par (holes rd))
               in bnd uuidv4 (\<lambda>rid.
                    case courseDifferential crs (teeColor rd) (numberOfHoles rd) total_score of
                      None \<Rightarrow> throw SpecialNumericValue
                    | Some differential \<Rightarrow>
                        (let rnd = \<lparr> courseId = courseId rd, courseName = courseName rd,
                                     teeColor = teeColor rd, numberOfHoles = numberOfHoles rd,
                                     date = date rd, players = players rd, holes = holes rd,
                                     roundId = rid, userId = uid, totalScore = total_score,
                                     totalPar = total_par, scoreDifferential = differential \<rparr>
                         in bnd (send_PutCommand rnd) (\<lambda>_.
                            bnd (if uid \<noteq> [] then updateUserHandicap uid else ret ()) (\<lambda>_.
                            ret (Response 201 (RoundBody rnd)))))))))
       (\<lambda>error.
          bnd (logger (LogError ''Create round error:'' error)) (\<lambda>_.
          ret (Response 500 (Message ''Kunne ikke opprette runde''))))"

text \<open>The loop of \<^verbatim>\<open>createMultiPlayerRound\<close> over \<^verbatim>\<open>roundData.playerScores\<close>.\<close>

fun createPlayerRounds ::
  "multiPlayerRoundData \<Rightarrow> string list \<Rightarrow> course \<Rightarrow> playerScore list \<Rightarrow> round list \<Rightarrow> round list io" where
  "createPlayerRounds rd playerIds crs [] createdRounds = ret createdRounds"
| "createPlayerRounds rd playerIds crs (ps # rest) createdRounds =
     (let total_score = reduce_sum (map strokes (scoreHoles ps));
          total_par = reduce_sum (map par (scoreHoles ps))
      in bnd uuidv4 (\<lambda>rid.
           case courseDifferential crs (teeColor rd) (numberOfHoles rd) total_score of
             None \<Rightarrow> throw SpecialNumericValue
           | Some differential \<Rightarrow>
               (let otherPlayers = filter (\<lambda>i. i \<noteq> playerId ps) playerIds;
                    rnd = \<lparr> courseId = courseId rd, courseName = courseName rd,
                            teeColor = teeColor rd, numberOfHoles = numberOfHoles rd,
                            date = date rd, players = otherPlayers, holes = scoreHoles ps,
                            roundId = rid, userId = playerId ps, totalScore = total_score,
                            totalPar = total_par, scoreDifferential = differential \<rparr>
                in bnd (send_PutCommand rnd) (\<lambda>_.
                   bnd (updateUserHandicap (playerId ps)) (\<lambda>_.
                   createPlayerRounds rd playerIds crs rest (createdRounds @ [rnd]))))))"

definition createMultiPlayerRound :: "string \<Rightarrow> multiPlayerRoundData \<Rightarrow> response io" where
  "createMultiPlayerRound requestingUserId rd =
     try_catch
       (let playerIds = map playerId (playerScores rd)
        in if requestingUserId \<notin> set playerIds then
             ret (Response 403 (Message ''Du maa vaere en av spillerne i runden''))
           else
             bnd (Promise_all (map send_GetUser playerIds)) (\<lambda>playerChecks.
               if length (filter (\<lambda>item. item = None) playerChecks) > 0 then
                 ret (Response 400 (Message ''En eller flere spillere finnes ikke i systemet''))
               else
                 bnd (send_GetCourse (courseId rd)) (\<lambda>courseItem.
                   case courseItem of
                     None \<Rightarrow> ret (Response 404 (Message ''Golfbane ikke funnet''))
                   | Some crs \<Rightarrow>
                       bnd (createPlayerRounds rd playerIds crs (playerScores rd) []) (\<lambda>createdRounds.
                         ret (Response 201 (RoundsCreated (length createdRounds) createdRounds))))))
       (\<lambda>error.
          bnd (logger (LogError ''Create multi-player round error:'' error)) (\<lambda>_.
          ret (Response 500 (Message ''Kunne ikke opprette runde''))))"

text \<open>\<^verbatim>\<open>[...new Set(xs)]\<close>: the first occurrence of each element, in order.\<close>

definition unique :: "'a list \<Rightarrow> 'a list" where
  "unique xs = rev (remdups (rev xs))"

definition deleteRound :: "string \<Rightarrow> string \<Rightarrow> response io" where
  "deleteRound uid rid =
     try_catch
       (bnd (send_GetRound rid) (\<lambda>existing.
          case existing of
            None \<Rightarrow> ret (Response 403 (Message ''Ingen tilgang''))
          | Some rnd \<Rightarrow>
              if userId rnd \<noteq> uid then ret (Response 403 (Message ''Ingen tilgang''))
              else
                bnd (if length (players rnd) > 0 then
                       (let allPlayerIds = uid # players rnd
                        in bnd (Promise_all
                                  (map (\<lambda>pid. send_QueryCommand pid (Some (date rnd))
                                                 (Some (courseId rnd)) True None)
                                     allPlayerIds))
                             (\<lambda>relatedRoundsResult. ret (concat relatedRoundsResult)))
                     else ret [rnd]) (\<lambda>relatedRounds.
                bnd (Promise_all (map (\<lambda>r. send_DeleteCommand (roundId r)) relatedRounds)) (\<lambda>_.
                bnd (Promise_all (map updateUserHandicap (unique (map userId relatedRounds)))) (\<lambda>_.
                ret (Response 200 (RoundsDeleted (length relatedRounds))))))))
       (\<lambda>error.
          bnd (logger (LogError ''Delete round error:'' error)) (\<lambda>_.
          ret (Response 500 (Message ''Kunne ikke slette runde''))))"


subsection \<open>getHandicapHistory\<close>

definition getHandicapHistory :: "string \<Rightarrow> response io" where
  "getHandicapHistory uid =
     try_catch
       (bnd (send_QueryCommand uid None None True None) (\<lambda>rounds.
          ret (Response 200
                 (History (handicapHistory (map (\<lambda>r. (date r, scoreDifferential r)) rounds))))))
       (\<lambda>error.
          bnd (logger (LogError ''Get handicap history error:'' error)) (\<lambda>_.
          ret (Response 500 (Message ''Kunne ikke hente handicap-historikk''))))"

text \<open>The commands that \<open>updateUserHandicap\<close> sends.\<close>

fun handicapCommand :: "command \<Rightarrow> bool" where
  "handicapCommand (QueryCommand uid None None False (Some n)) = (n = 20)"
| "handicapCommand (UpdateCommand uid h) = True"
| "handicapCommand c = False"


section \<open>The step table of the specification\<close>

text \<open>
  The table of section 4.2 of the specification, row by row, for the count of the rounds
  considered. It has no row for a count of zero.
\<close>

definition stepTable :: "nat \<Rightarrow> nat" where
  "stepTable roundCount =
     (if 1 \<le> roundCount \<and> roundCount \<le> 2 then 1
      else if 3 \<le> roundCount \<and> roundCount \<le> 5 then 2
      else if 6 \<le> roundCount \<and> roundCount \<le> 8 then 3
      else if 9 \<le> roundCount \<and> roundCount \<le> 11 then 4
      else if 12 \<le> roundCount \<and> roundCount \<le> 15 then 5
      else if 16 \<le> roundCount \<and> roundCount \<le> 18 then 6
      else if roundCount = 19 then 7
      else if 20 \<le> roundCount then 8
      else 0)"


section \<open>Runs that differ in the handicap update only\<close>

text \<open>
  Two worlds agree when they have the same rounds, courses and coming identifiers, and
  every command other than those of \<open>updateUserHandicap\<close> has the same coming
  outcomes in both. The users' handicaps, the log and the outcomes of the commands of
  \<open>updateUserHandicap\<close> are free to differ.
\<close>

definition agree :: "world \<Rightarrow> world \<Rightarrow> bool" where
  "agree w1 w2 \<longleftrightarrow>
     ROUNDS w1 = ROUNDS w2 \<and> COURSES w1 = COURSES w2 \<and> uuids w1 = uuids w2 \<and>
     (\<forall>c. \<not> handicapCommand c \<longrightarrow> outcomes w1 c = outcomes w2 c)"

text \<open>
  The same, for worlds that also hold the same users.
\<close>

definition agreeUsers :: "world \<Rightarrow> world \<Rightarrow> bool" where
  "agreeUsers w1 w2 \<longleftrightarrow> agree w1 w2 \<and> USERS w1 = USERS w2"

text \<open>
  What a run of \<open>updateUserHandicap\<close> leaves as it was.
\<close>

definition frame :: "world \<Rightarrow> world \<Rightarrow> bool" where
  "frame w w' \<longleftrightarrow>
     ROUNDS w' = ROUNDS w \<and> COURSES w' = COURSES w \<and> uuids w' = uuids w \<and>
     (\<forall>c. \<not> handicapCommand c \<longrightarrow> outcomes w' c = outcomes w c)"

text \<open>
  A computation is coupled when, from two related worlds, it gives the same result and
  leaves worlds that agree.
\<close>

definition coupled_from :: "(world \<Rightarrow> world \<Rightarrow> bool) \<Rightarrow> 'a io \<Rightarrow> bool" where
  "coupled_from P m \<longleftrightarrow>
     (\<forall>w1 w2. P w1 w2 \<longrightarrow> fst (m w1) = fst (m w2) \<and> agree (snd (m w1)) (snd (m w2)))"

abbreviation coupled :: "'a io \<Rightarrow> bool" where
  "coupled \<equiv> coupled_from agree"


section \<open>Example data\<close>

definition exampleCourse :: course where
  "exampleCourse = \<lparr> rating = [''white'' \<mapsto> 72], slope = [''white'' \<mapsto> 113] \<rparr>"

definition exampleWorld :: world where
  "exampleWorld = \<lparr> ROUNDS = [], USERS = [''u1'' \<mapsto> 36, ''u2'' \<mapsto> 36], COURSES = [''c1'' \<mapsto> exampleCourse],
       outcomes = (\<lambda>c. []), logged = [], uuids = [''r1'', ''r2''] \<rparr>"

definition failingWorld :: world where
  "failingWorld = exampleWorld\<lparr>outcomes := (\<lambda>c. if handicapCommand c then [True] else [])\<rparr>"

definition updateFailingWorld :: world where
  "updateFailingWorld = exampleWorld\<lparr>outcomes := (\<lambda>c. [])(UpdateCommand ''u1'' 54 := [True])\<rparr>"

definition exampleRoundData :: roundData where
  "exampleRoundData = \<lparr> courseId = ''c1'', courseName = ''Oslo'', teeColor = ''white'',
       numberOfHoles = 18, date = ''2024-05-01'', players = [],
       holes = replicate 18 \<lparr> strokes = 5, par = 4 \<rparr> \<rparr>"

definition exampleRound :: round where
  "exampleRound = \<lparr> courseId = ''c1'', courseName = ''Oslo'', teeColor = ''white'',
       numberOfHoles = 18, date = ''2024-05-01'', players = [],
       holes = replicate 18 \<lparr> strokes = 5, par = 4 \<rparr>,
       roundId = ''r1'', userId = ''u1'', totalScore = 90, totalPar = 72,
       scoreDifferential = 18 \<rparr>"

definition exampleMultiPlayerRoundData :: multiPlayerRoundData where
  "exampleMultiPlayerRoundData = \<lparr> courseId = ''c1'', courseName = ''Oslo'', teeColor = ''white'',
       numberOfHoles = 18, date = ''2024-05-01'',
       playerScores = [\<lparr> playerId = ''u1'', scoreHoles = replicate 18 \<lparr> strokes = 5, par = 4 \<rparr> \<rparr>,
                       \<lparr> playerId = ''u2'', scoreHoles = replicate 18 \<lparr> strokes = 6, par = 4 \<rparr> \<rparr>] \<rparr>"

definition secondRound :: round where
  "secondRound = \<lparr> courseId = ''c1'', courseName = ''Oslo'', teeColor = ''white'',
       numberOfHoles = 18, date = ''2024-05-01'', players = [''u1''],
       holes = replicate 18 \<lparr> strokes = 6, par = 4 \<rparr>,
       roundId = ''r2'', userId = ''u2'', totalScore = 108, totalPar = 72,
       scoreDifferential = 36 \<rparr>"

definition exampleTable :: "round list" where
  "exampleTable =
     map (\<lambda>(d, x). exampleRound\<lparr>date := d, roundId := d, scoreDifferential := x\<rparr>)
       [(''2024-01-01'', 1), (''2024-01-02'', 2), (''2024-01-03'', 3), (''2024-01-04'', 4),
        (''2024-01-05'', 5), (''2024-01-06'', 6), (''2024-01-07'', 7), (''2024-01-08'', 8),
        (''2024-01-09'', 9), (''2024-01-10'', 10), (''2024-01-11'', 11), (''2024-01-12'', 12),
        (''2024-01-13'', 13), (''2024-01-14'', 14), (''2024-01-15'', 15), (''2024-01-16'', 16),
        (''2024-01-17'', 17), (''2024-01-18'', 18), (''2024-01-19'', 19), (''2024-01-20'', 20),
        (''2024-01-21'', 21)]"

definition historyWorld :: world where
  "historyWorld = exampleWorld\<lparr>ROUNDS :=
     [exampleRound\<lparr>date := ''2024-01-01'', roundId := ''a'', scoreDifferential := 5\<rparr>,
      exampleRound\<lparr>date := ''2024-01-02'', roundId := ''b'', scoreDifferential := 10\<rparr>,
      exampleRound\<lparr>date := ''2024-01-03'', roundId := ''c'', scoreDifferential := 15\<rparr>]\<rparr>"


section \<open>Rounding to the nearest binary64 value\<close>

lemma pow2_power_int: "pow2 k = power_int 2 k"
  by (simp add: pow2_def power_int_def field_simps)

lemma pow2_pos: "0 < pow2 k"
  by (simp add: pow2_power_int)

lemma pow2_add: "pow2 (a + b) = pow2 a * pow2 b"
  by (simp add: pow2_power_int power_int_add)

lemma pow2_mono: "a \<le> b \<Longrightarrow> pow2 a \<le> pow2 b"
  by (simp add: pow2_power_int power_int_increasing)

lemma pow2_strict_mono: "a < b \<Longrightarrow> pow2 a < pow2 b"
  by (simp add: pow2_power_int power_int_strict_increasing)

lemma pow2_less_iff: "pow2 a < pow2 b \<longleftrightarrow> a < b"
  using pow2_strict_mono [of a b] pow2_mono [of b a] by (auto simp: not_less [symmetric])

lemma pow2_nat: "0 \<le> k \<Longrightarrow> pow2 k = 2 ^ nat k"
  by (simp add: pow2_def)

lemma pow2_neg: "pow2 (- k) = 1 / pow2 k"
  by (simp add: pow2_power_int power_int_minus field_simps)

lemma floor_bitlen_bounds:
  fixes a :: rat
  assumes "1 \<le> a"
  shows "pow2 (bitlen \<lfloor>a\<rfloor> - 1) \<le> a \<and> a < pow2 (bitlen \<lfloor>a\<rfloor>)"
proof -
  let ?n = "\<lfloor>a\<rfloor>"
  from assms have n: "0 < ?n" by simp
  from bitlen_bounds [OF n] have lo: "2 ^ nat (bitlen ?n - 1) \<le> ?n" and hi: "?n < 2 ^ nat (bitlen ?n)"
    by simp_all
  from n have b1: "1 \<le> bitlen ?n"
    using bitlen_eq_zero_iff [of ?n] bitlen_nonneg [of ?n] by linarith
  have "(of_int (2 ^ nat (bitlen ?n - 1)) :: rat) \<le> of_int ?n"
    using lo by (simp only: of_int_le_iff)
  then have "pow2 (bitlen ?n - 1) \<le> of_int ?n"
    using b1 by (simp add: pow2_nat)
  moreover have "of_int ?n \<le> a" by simp
  ultimately have l: "pow2 (bitlen ?n - 1) \<le> a" by linarith
  from hi have "?n + 1 \<le> 2 ^ nat (bitlen ?n)" by simp
  then have "(of_int (?n + 1) :: rat) \<le> of_int (2 ^ nat (bitlen ?n))"
    by (simp only: of_int_le_iff)
  then have "of_int ?n + 1 \<le> pow2 (bitlen ?n)"
    using b1 by (simp add: pow2_nat)
  moreover have "a < of_int ?n + 1" by linarith
  ultimately have "a < pow2 (bitlen ?n)" by linarith
  with l show ?thesis by simp
qed

lemma expo_bounds:
  assumes "x \<noteq> 0"
  shows "pow2 (expo x) \<le> \<bar>x\<bar> \<and> \<bar>x\<bar> < pow2 (expo x + 1)"
proof (cases "1 \<le> \<bar>x\<bar>")
  case True
  then have "expo x = bitlen \<lfloor>\<bar>x\<bar>\<rfloor> - 1"
    by (simp add: expo_def Let_def)
  with floor_bitlen_bounds [OF True] show ?thesis by simp
next
  case False
  let ?a = "\<bar>x\<bar>"
  let ?y = "1 / ?a"
  let ?k = "bitlen \<lfloor>?y\<rfloor> - 1"
  from assms False have a: "0 < ?a" "?a < 1" by simp_all
  then have y: "1 \<le> ?y" by simp
  from floor_bitlen_bounds [OF y] have lo: "pow2 ?k \<le> ?y" and hi: "?y < pow2 (?k + 1)"
    by simp_all
  show ?thesis
  proof (cases "?y = pow2 ?k")
    case True
    with False have e: "expo x = - ?k"
      by (simp add: expo_def Let_def)
    from True have "1 / ?y = 1 / pow2 ?k"
      by (rule arg_cong)
    moreover have "1 / ?y = ?a"
      using a by simp
    ultimately have "?a = 1 / pow2 ?k"
      by simp
    then have eq: "?a = pow2 (- ?k)" by (simp only: pow2_neg)
    have "pow2 (- ?k) < pow2 (- ?k + 1)" by (rule pow2_strict_mono) simp
    with eq e show ?thesis by simp
  next
    case neq: False
    with False have e: "expo x = - ?k - 1"
      by (simp add: expo_def Let_def)
    from neq lo have lt: "pow2 ?k < ?y" by simp
    have p1: "0 < pow2 ?k" "0 < pow2 (?k + 1)" by (rule pow2_pos)+
    from lt a p1 have "?a < 1 / pow2 ?k"
      by (simp add: field_simps)
    then have u: "?a < pow2 (- ?k)" by (simp only: pow2_neg)
    from hi a p1 have "1 / pow2 (?k + 1) < ?a"
      by (simp add: field_simps)
    then have "pow2 (- (?k + 1)) < ?a" by (simp only: pow2_neg)
    then have l: "pow2 (- ?k - 1) \<le> ?a" by (simp add: algebra_simps)
    from l u e show ?thesis by simp
  qed
qed

lemma expo_mono:
  assumes "x \<noteq> 0" "\<bar>x\<bar> \<le> \<bar>y\<bar>"
  shows "expo x \<le> expo y"
proof -
  from assms have y: "y \<noteq> 0" by auto
  from expo_bounds [OF assms(1)] expo_bounds [OF y] assms(2)
  have "pow2 (expo x) < pow2 (expo y + 1)" by linarith
  then show ?thesis by (simp add: pow2_less_iff)
qed

lemma round_even_cases:
  "round_even y = \<lfloor>y\<rfloor> \<or> round_even y = \<lfloor>y\<rfloor> + 1"
  by (simp add: round_even_def Let_def)

lemma round_even_of_int: "round_even (of_int n) = n"
  by (simp add: round_even_def Let_def)

lemma round_even_ge: "of_int n \<le> y \<Longrightarrow> n \<le> round_even y"
proof -
  assume "of_int n \<le> y"
  then have "n \<le> \<lfloor>y\<rfloor>" by (simp add: le_floor_iff)
  with round_even_cases [of y] show ?thesis by linarith
qed

lemma round_even_le: "y \<le> of_int n \<Longrightarrow> round_even y \<le> n"
proof (cases "y = of_int n")
  case True
  then show ?thesis by (simp add: round_even_of_int)
next
  case False
  assume "y \<le> of_int n"
  with False have "y < of_int n" by simp
  then have "\<lfloor>y\<rfloor> < n" by (simp add: floor_less_iff)
  with round_even_cases [of y] show ?thesis by linarith
qed

lemma round_even_near: "\<bar>of_int (round_even y) - y\<bar> \<le> 1 / 2"
proof -
  have "of_int \<lfloor>y\<rfloor> \<le> y" "y < of_int \<lfloor>y\<rfloor> + 1" by linarith+
  then show ?thesis
    by (auto simp: round_even_def Let_def abs_le_iff)
qed

lemma quantum_pos: "0 < quantum x"
  by (simp add: quantum_def pow2_pos)

lemma fl_nonneg: "0 \<le> x \<Longrightarrow> 0 \<le> fl x"
proof -
  assume x: "0 \<le> x"
  have "(0::rat) = of_int 0" by simp
  from x have "of_int 0 \<le> x / quantum x"
    using quantum_pos [of x] by simp
  then have "0 \<le> round_even (x / quantum x)" by (rule round_even_ge)
  then show ?thesis
    using quantum_pos [of x] by (simp add: fl_def)
qed

lemma fl_nonpos: "x \<le> 0 \<Longrightarrow> fl x \<le> 0"
proof -
  assume x: "x \<le> 0"
  from x have "x / quantum x \<le> of_int 0"
    using quantum_pos [of x] by (simp add: divide_le_0_iff)
  then have "round_even (x / quantum x) \<le> 0" by (rule round_even_le)
  then show ?thesis
    using quantum_pos [of x] by (simp add: fl_def mult_le_0_iff)
qed

lemma fl_eq: "fl x = of_int (round_even (x / quantum x)) * quantum x"
  by (simp add: fl_def round_even_def)

lemma quantum_eq:
  "max (expo x) (- 1022) = max (expo y) (- 1022) \<Longrightarrow> quantum x = quantum y"
  by (simp add: quantum_def)

lemma pow2_quantum:
  "pow2 (max (expo x) (- 1022) + k) = pow2 (52 + k) * quantum x"
proof -
  have "max (expo x) (- 1022) + k = (52 + k) + (max (expo x) (- 1022) - 52)" by simp
  then show ?thesis
    unfolding quantum_def by (simp only: pow2_add)
qed

lemma fixed_point_multiple:
  assumes "fl d = d"
  shows "d / quantum d = of_int (round_even (d / quantum d))"
proof -
  from assms fl_eq [of d] have "d = of_int (round_even (d / quantum d)) * quantum d"
    by simp
  then have "d / quantum d = of_int (round_even (d / quantum d)) * quantum d / quantum d"
    by simp
  then show ?thesis
    using quantum_pos [of d] by simp
qed

lemma fl_ge_representable:
  assumes d: "0 < d" "fl d = d" and x: "d \<le> x"
  shows "d \<le> fl x"
proof -
  let ?Ed = "max (expo d) (- 1022)" and ?Ex = "max (expo x) (- 1022)"
  from d x have x0: "x \<noteq> 0" "0 < x" by simp_all
  from d x have "expo d \<le> expo x"
    by (intro expo_mono) simp_all
  then have le: "?Ed \<le> ?Ex" by simp
  have q: "0 < quantum x" by (rule quantum_pos)
  show ?thesis
  proof (cases "?Ed = ?Ex")
    case True
    then have qq: "quantum d = quantum x" by (rule quantum_eq)
    let ?n = "round_even (d / quantum d)"
    from fixed_point_multiple [OF d(2)] have dn: "d / quantum x = of_int ?n"
      by (simp add: qq)
    from x q have "d / quantum x \<le> x / quantum x"
      by (simp add: divide_right_mono)
    with dn have "of_int ?n \<le> x / quantum x" by simp
    then have "?n \<le> round_even (x / quantum x)" by (rule round_even_ge)
    then have "(of_int ?n :: rat) * quantum x \<le> of_int (round_even (x / quantum x)) * quantum x"
      using q by simp
    moreover from dn q have "d = of_int ?n * quantum x"
      by (simp add: field_simps)
    ultimately show ?thesis by (simp add: fl_eq [of x])
  next
    case False
    with le have lt: "?Ed < ?Ex" by linarith
    then have ex: "?Ex = expo x" by linarith
    from expo_bounds [OF x0(1)] x0(2) have "pow2 (expo x) \<le> x" by simp
    with ex have px: "pow2 (?Ex + 0) \<le> x" by simp
    have "pow2 (?Ex + 0) = pow2 (52 + 0) * quantum x" by (rule pow2_quantum)
    with px have "of_int (2 ^ 52) * quantum x \<le> x"
      by (simp add: pow2_nat)
    with q have "of_int (2 ^ 52) \<le> x / quantum x"
      by (simp add: field_simps)
    then have "2 ^ 52 \<le> round_even (x / quantum x)" by (rule round_even_ge)
    then have "(of_int (2 ^ 52) :: rat) \<le> of_int (round_even (x / quantum x))"
      by (simp only: of_int_le_iff)
    then have "of_int (2 ^ 52) * quantum x \<le> fl x"
      using q by (simp add: fl_eq [of x])
    then have f: "pow2 ?Ex \<le> fl x"
      using pow2_quantum [of x 0] by (simp add: pow2_nat)
    from d have "d \<noteq> 0" by simp
    from expo_bounds [OF this] d(1) have "d < pow2 (expo d + 1)" by simp
    also have "\<dots> \<le> pow2 (?Ed + 1)" by (rule pow2_mono) simp
    also have "\<dots> \<le> pow2 ?Ex" by (rule pow2_mono) (use lt in linarith)
    finally show ?thesis using f by simp
  qed
qed

lemma fl_le_representable:
  assumes d: "0 < d" "fl d = d" and x: "x \<le> d"
  shows "fl x \<le> d"
proof (cases "x \<le> 0")
  case True
  then have "fl x \<le> 0" by (rule fl_nonpos)
  with d(1) show ?thesis by simp
next
  case False
  then have x0: "x \<noteq> 0" "0 < x" by simp_all
  let ?Ed = "max (expo d) (- 1022)" and ?Ex = "max (expo x) (- 1022)"
  from x0 x have "expo x \<le> expo d"
    by (intro expo_mono) simp_all
  then have le: "?Ex \<le> ?Ed" by simp
  have q: "0 < quantum x" by (rule quantum_pos)
  show ?thesis
  proof (cases "?Ed = ?Ex")
    case True
    then have qq: "quantum d = quantum x" by (rule quantum_eq)
    let ?n = "round_even (d / quantum d)"
    from fixed_point_multiple [OF d(2)] have dn: "d / quantum x = of_int ?n"
      by (simp add: qq)
    from x q have "x / quantum x \<le> d / quantum x"
      by (simp add: divide_right_mono)
    with dn have "x / quantum x \<le> of_int ?n" by simp
    then have "round_even (x / quantum x) \<le> ?n" by (rule round_even_le)
    then have "(of_int (round_even (x / quantum x)) :: rat) * quantum x \<le> of_int ?n * quantum x"
      using q by simp
    moreover from dn q have "d = of_int ?n * quantum x"
      by (simp add: field_simps)
    ultimately show ?thesis by (simp add: fl_eq [of x])
  next
    case False
    with le have lt: "?Ex < ?Ed" by linarith
    then have ed: "?Ed = expo d" by linarith
    from d have "d \<noteq> 0" by simp
    from expo_bounds [OF this] d(1) ed have pd: "pow2 ?Ed \<le> d" by simp
    from expo_bounds [OF x0(1)] x0(2) have "x < pow2 (expo x + 1)" by simp
    also have "\<dots> \<le> pow2 (?Ex + 1)" by (rule pow2_mono) simp
    finally have "x \<le> pow2 (52 + 1) * quantum x"
      using pow2_quantum [of x 1] by simp
    then have "x \<le> of_int (2 ^ 53) * quantum x"
      by (simp add: pow2_nat)
    with q have "x / quantum x \<le> of_int (2 ^ 53)"
      by (simp add: field_simps)
    then have "round_even (x / quantum x) \<le> 2 ^ 53" by (rule round_even_le)
    then have "(of_int (round_even (x / quantum x)) :: rat) \<le> of_int (2 ^ 53)"
      by (simp only: of_int_le_iff)
    then have "fl x \<le> of_int (2 ^ 53) * quantum x"
      using q by (simp add: fl_eq [of x])
    then have "fl x \<le> pow2 (?Ex + 1)"
      using pow2_quantum [of x 1] by (simp add: pow2_nat)
    also have "\<dots> \<le> pow2 ?Ed" by (rule pow2_mono) (use lt in linarith)
    finally show ?thesis using pd by simp
  qed
qed

lemma fl_error_quantum: "\<bar>fl x - x\<bar> \<le> quantum x / 2"
proof -
  have q: "0 < quantum x" by (rule quantum_pos)
  let ?r = "of_int (round_even (x / quantum x)) :: rat"
  have "\<bar>?r - x / quantum x\<bar> \<le> 1 / 2" by (rule round_even_near)
  then have "\<bar>?r - x / quantum x\<bar> * quantum x \<le> 1 / 2 * quantum x"
    using q by (simp only: mult_le_cancel_right_pos)
  moreover have "\<bar>?r - x / quantum x\<bar> * quantum x = \<bar>?r * quantum x - x\<bar>"
  proof -
    have "\<bar>?r - x / quantum x\<bar> * quantum x = \<bar>(?r - x / quantum x) * quantum x\<bar>"
      using q by (simp add: abs_mult)
    also have "(?r - x / quantum x) * quantum x = ?r * quantum x - x"
      using q by (simp add: field_simps)
    finally show ?thesis .
  qed
  ultimately show ?thesis by (simp add: fl_eq [of x])
qed

lemma fl_error: "\<bar>fl x - x\<bar> \<le> pow2 (- 53) * \<bar>x\<bar> + pow2 (- 1075)"
proof (cases "- 1022 \<le> expo x \<and> x \<noteq> 0")
  case True
  then have "max (expo x) (- 1022) = expo x" by linarith
  then have "quantum x = pow2 (expo x + (- 52))" by (simp add: quantum_def)
  also have "\<dots> = pow2 (expo x) * pow2 (- 52)" by (rule pow2_add)
  also have "\<dots> \<le> \<bar>x\<bar> * pow2 (- 52)"
    using expo_bounds [of x] True pow2_pos [of "- 52"] by simp
  finally have "quantum x / 2 \<le> \<bar>x\<bar> * (pow2 (- 52) / 2)" by simp
  moreover have "pow2 (- 52) / 2 = pow2 (- 53)" by (simp add: pow2_def)
  ultimately have "quantum x / 2 \<le> pow2 (- 53) * \<bar>x\<bar>" by (simp add: mult.commute)
  with fl_error_quantum [of x] pow2_pos [of "- 1075"] show ?thesis by linarith
next
  case False
  show ?thesis
  proof (cases "x = 0")
    case True
    then show ?thesis using pow2_pos [of "- 1075"] by (simp add: fl_def less_imp_le)
  next
    case nz: False
    with False have "max (expo x) (- 1022) = - 1022" by linarith
    then have "quantum x = pow2 (- 1074)" by (simp add: quantum_def)
    moreover have "pow2 (- 1074) / 2 = pow2 (- 1075)" by (simp add: pow2_def)
    ultimately have "quantum x / 2 = pow2 (- 1075)" by simp
    moreover have "0 \<le> pow2 (- 53) * \<bar>x\<bar>" using pow2_pos [of "- 53"] by simp
    ultimately show ?thesis using fl_error_quantum [of x] by linarith
  qed
qed

lemma expo_unique:
  assumes "pow2 e \<le> \<bar>x\<bar>" "\<bar>x\<bar> < pow2 (e + 1)"
  shows "expo x = e"
proof -
  from assms(1) pow2_pos [of e] have x: "x \<noteq> 0" by auto
  from expo_bounds [OF x] assms have "pow2 (expo x) < pow2 (e + 1)" "pow2 e < pow2 (expo x + 1)"
    by linarith+
  then show ?thesis by (simp add: pow2_less_iff)
qed

lemma expo_pow2: "expo (pow2 k) = k"
proof (rule expo_unique)
  show "pow2 k \<le> \<bar>pow2 k\<bar>" using pow2_pos [of k] by simp
  show "\<bar>pow2 k\<bar> < pow2 (k + 1)" using pow2_pos [of k] pow2_strict_mono [of k "k + 1"] by simp
qed

lemma fl_pow2:
  assumes "- 1074 \<le> k"
  shows "fl (pow2 k) = pow2 k"
proof -
  let ?E = "max k (- 1022)"
  define j where "j = k - (?E - 52)"
  from assms have j: "0 \<le> j" unfolding j_def by linarith
  have q: "quantum (pow2 k) = pow2 (?E - 52)"
    by (simp add: quantum_def expo_pow2)
  have "pow2 k = pow2 (j + (?E - 52))" by (simp add: j_def)
  also have "\<dots> = pow2 j * pow2 (?E - 52)" by (rule pow2_add)
  finally have k: "pow2 k = of_int (2 ^ nat j) * quantum (pow2 k)"
    using j q by (simp add: pow2_nat)
  then have "pow2 k / quantum (pow2 k) = of_int (2 ^ nat j) * quantum (pow2 k) / quantum (pow2 k)"
    by simp
  then have "pow2 k / quantum (pow2 k) = of_int (2 ^ nat j)"
    using quantum_pos [of "pow2 k"] by simp
  then have "round_even (pow2 k / quantum (pow2 k)) = 2 ^ nat j"
    by (simp only: round_even_of_int)
  with k show ?thesis by (simp add: fl_eq [of "pow2 k"])
qed

lemma round_even_minus: "round_even (- y) = - round_even y"
proof (cases "y = of_int \<lfloor>y\<rfloor>")
  case True
  then obtain n where "y = of_int n" ..
  then have "- y = of_int (- n)" by simp
  with \<open>y = of_int n\<close> show ?thesis by (simp only: round_even_of_int)
next
  case False
  then have b: "of_int \<lfloor>y\<rfloor> < y" "y < of_int \<lfloor>y\<rfloor> + 1"
    by linarith+
  have fm: "\<lfloor>- y\<rfloor> = - \<lfloor>y\<rfloor> - 1"
    by (rule floor_unique) (use b in simp_all)
  show ?thesis
    using b by (auto simp: round_even_def Let_def fm)
qed

lemma expo_minus: "expo (- x) = expo x"
  by (simp add: expo_def)

lemma fl_minus: "fl (- x) = - fl x"
proof -
  have "quantum (- x) = quantum x" by (simp add: quantum_def expo_minus)
  then show ?thesis
    by (simp add: fl_eq [of "- x"] fl_eq [of x] round_even_minus)
qed

lemma fl_abs_le_pow2:
  assumes k: "- 1074 \<le> k" and x: "\<bar>x\<bar> \<le> pow2 k"
  shows "\<bar>fl x\<bar> \<le> pow2 k"
proof (cases "0 \<le> x")
  case True
  with x have "fl x \<le> pow2 k"
    by (intro fl_le_representable pow2_pos fl_pow2 k) simp
  with fl_nonneg [OF True] show ?thesis by simp
next
  case False
  then have n: "0 \<le> - x" by simp
  with x have "fl (- x) \<le> pow2 k"
    by (intro fl_le_representable pow2_pos fl_pow2 k) simp
  with fl_nonneg [OF n] show ?thesis by (simp add: fl_minus)
qed

lemma finite_number_Some:
  assumes "\<bar>x\<bar> \<le> pow2 1023"
  shows "finite_number x = Some x"
proof (cases "x = 0")
  case True
  then show ?thesis by (simp add: finite_number_def)
next
  case False
  from expo_bounds [OF False] assms have "pow2 (expo x) < pow2 1024"
    using pow2_strict_mono [of 1023 1024] by linarith
  then have "expo x < 1024" by (simp add: pow2_less_iff)
  then show ?thesis by (simp add: finite_number_def)
qed

lemma finite_number_cases: "finite_number x = Some v \<Longrightarrow> v = x"
  by (simp add: finite_number_def split: if_splits)

lemma fl_54: "fl 54 = 54"
  by code_simp

lemma fl_540: "fl 540 = 540"
  by code_simp

lemma fl_le_54: "x \<le> 54 \<Longrightarrow> fl x \<le> 54"
  by (rule fl_le_representable) (simp_all add: fl_54)

lemma fl_ge_54: "54 \<le> x \<Longrightarrow> 54 \<le> fl x"
  by (rule fl_ge_representable) (simp_all add: fl_54)

lemma fl_le_540: "x \<le> 540 \<Longrightarrow> fl x \<le> 540"
  by (rule fl_le_representable) (simp_all add: fl_540)

lemma fl_ge_540: "540 \<le> x \<Longrightarrow> 540 \<le> fl x"
  by (rule fl_ge_representable) (simp_all add: fl_540)

lemma fl_error_simple: "\<bar>fl x - x\<bar> \<le> (\<bar>x\<bar> + 1) / 2 ^ 53"
proof -
  have "pow2 (- 1075) \<le> pow2 (- 53)" by (rule pow2_mono) simp
  with fl_error [of x] have "\<bar>fl x - x\<bar> \<le> pow2 (- 53) * \<bar>x\<bar> + pow2 (- 53)"
    by linarith
  moreover have "pow2 (- 53) = 1 / 2 ^ 53" by (simp add: pow2_def)
  ultimately have "\<bar>fl x - x\<bar> \<le> 1 / 2 ^ 53 * \<bar>x\<bar> + 1 / 2 ^ 53"
    by (simp only:)
  then show ?thesis
    by (simp add: field_simps)
qed


section \<open>Arithmetic of the helpers\<close>

lemma numberOfScoresToUse_pos: "1 \<le> numberOfScoresToUse n"
  by (simp add: numberOfScoresToUse_def)

lemma numberOfScoresToUse_le: "0 < n \<Longrightarrow> numberOfScoresToUse n \<le> n"
  by (simp add: numberOfScoresToUse_def)

lemma length_bestDifferentials:
  "ds \<noteq> [] \<Longrightarrow> length (bestDifferentials ds) = numberOfScoresToUse (length ds)"
  by (simp add: bestDifferentials_def slice0_def sort_ascending_def numberOfScoresToUse_le)

lemma Math_round_upper: "Math_round x \<le> x + 1 / 2"
  by (simp add: Math_round_def)

lemma Math_round_lower: "x - 1 / 2 < Math_round x"
  unfolding Math_round_def by linarith

lemma Math_round_mono: "x \<le> y \<Longrightarrow> Math_round x \<le> Math_round y"
  by (simp add: Math_round_def floor_mono)

lemma Math_round_of_int: "Math_round (of_int k) = of_int k"
  unfolding Math_round_def by simp linarith

lemma clamp_range: "0 \<le> Math_max 0 (Math_min 54 x) \<and> Math_max 0 (Math_min 54 x) \<le> 54"
  by (simp add: Math_max_def Math_min_def)

lemma sort_ascending_mset: "mset xs = mset ys \<Longrightarrow> sort_ascending xs = sort_ascending ys"
  unfolding sort_ascending_def by (rule properties_for_sort) simp_all

lemma set_bestDifferentials: "set (bestDifferentials ds) \<subseteq> set ds"
  unfolding bestDifferentials_def slice0_def sort_ascending_def
  using set_take_subset [of "numberOfScoresToUse (length ds)" "sort ds"] by simp

lemma bestDifferentials_nonempty: "ds \<noteq> [] \<Longrightarrow> bestDifferentials ds \<noteq> []"
  using length_bestDifferentials [of ds] numberOfScoresToUse_pos [of "length ds"] by auto

lemma computeHandicap_mset:
  assumes "mset xs = mset ys"
  shows "computeHandicap xs = computeHandicap ys"
proof -
  have len: "length xs = length ys"
    using assms by (rule mset_eq_length)
  have "bestDifferentials xs = bestDifferentials ys"
    unfolding bestDifferentials_def using len sort_ascending_mset [OF assms] by simp
  then show ?thesis
    using len by (simp add: computeHandicap_def newHandicap_def averageDifferential_def)
qed

lemma Math_round_le_int: "x \<le> of_int n \<Longrightarrow> Math_round x \<le> of_int n"
  using Math_round_mono [of x "of_int n"] by (simp add: Math_round_of_int)

lemma Math_round_ge_int: "of_int n \<le> x \<Longrightarrow> of_int n \<le> Math_round x"
  using Math_round_mono [of "of_int n" x] by (simp add: Math_round_of_int)

lemma round_tenth_upper:
  assumes "x \<le> 54"
  shows "fdiv (Math_round (fmul x 10)) 10 \<le> 54"
proof -
  from assms have "fmul x 10 \<le> of_int 540"
    unfolding fmul_def by (intro fl_le_540 [THEN order_trans]) simp_all
  then have "Math_round (fmul x 10) \<le> of_int 540"
    by (rule Math_round_le_int)
  then have "Math_round (fmul x 10) / 10 \<le> 54" by simp
  then show ?thesis
    unfolding fdiv_def by (rule fl_le_54)
qed

lemma round_tenth_lower:
  assumes "54 \<le> x"
  shows "54 \<le> fdiv (Math_round (fmul x 10)) 10"
proof -
  from assms have "of_int 540 \<le> fmul x 10"
    unfolding fmul_def by (intro order_trans [OF _ fl_ge_540]) simp_all
  then have "of_int 540 \<le> Math_round (fmul x 10)"
    by (rule Math_round_ge_int)
  then have "54 \<le> Math_round (fmul x 10) / 10" by simp
  then show ?thesis
    unfolding fdiv_def by (rule fl_ge_54)
qed

lemma round_tenth_nonneg:
  assumes "0 \<le> x"
  shows "0 \<le> fdiv (Math_round (fmul x 10)) 10"
proof -
  from assms have "of_int 0 \<le> fmul x 10"
    unfolding fmul_def by (simp add: fl_nonneg)
  then have "of_int 0 \<le> Math_round (fmul x 10)"
    by (rule Math_round_ge_int)
  then show ?thesis
    unfolding fdiv_def by (simp add: fl_nonneg)
qed

lemma round_tenth_nonpos:
  assumes "x \<le> 0"
  shows "fdiv (Math_round (fmul x 10)) 10 \<le> 0"
proof -
  from assms have "fmul x 10 \<le> of_int 0"
    unfolding fmul_def by (simp add: fl_nonpos mult_le_0_iff)
  then have "Math_round (fmul x 10) \<le> of_int 0"
    by (rule Math_round_le_int)
  then show ?thesis
    unfolding fdiv_def by (simp add: fl_nonpos divide_le_0_iff)
qed

lemma round_tenth_range:
  assumes "0 \<le> x" "x \<le> 54"
  shows "0 \<le> fdiv (Math_round (fmul x 10)) 10 \<and> fdiv (Math_round (fmul x 10)) 10 \<le> 54"
  using round_tenth_nonneg [OF assms(1)] round_tenth_upper [OF assms(2)] by simp

lemma foldl_fadd_nonpos:
  "a \<le> 0 \<Longrightarrow> \<forall>x\<in>set xs. x \<le> 0 \<Longrightarrow> foldl (\<lambda>sum diff. fadd sum diff) a xs \<le> 0"
proof (induction xs arbitrary: a)
  case Nil
  then show ?case by simp
next
  case (Cons x xs)
  from Cons.prems have "fadd a x \<le> 0"
    unfolding fadd_def by (intro fl_nonpos) simp
  with Cons show ?case by simp
qed

lemma reduce_sum_nonpos: "\<forall>x\<in>set xs. x \<le> 0 \<Longrightarrow> reduce_sum xs \<le> 0"
  unfolding reduce_sum_def by (rule foldl_fadd_nonpos) simp_all

lemma averageDifferential_nonpos:
  assumes "\<forall>d\<in>set ds. d < 0"
  shows "averageDifferential ds \<le> 0"
proof -
  have "\<forall>d\<in>set (bestDifferentials ds). d \<le> 0"
    using assms set_bestDifferentials [of ds] by force
  then have "reduce_sum (bestDifferentials ds) \<le> 0"
    by (rule reduce_sum_nonpos)
  then have "reduce_sum (bestDifferentials ds) / of_nat (length (bestDifferentials ds)) \<le> 0"
    by (simp add: divide_le_0_iff)
  then show ?thesis
    unfolding averageDifferential_def fdiv_def by (rule fl_nonpos)
qed

lemma countToUse_middle: "list_all (\<lambda>n. countToUse n = 2 * n div 5) [6 ..< 20]"
  by code_simp

lemma countToUse_div: "6 \<le> n \<Longrightarrow> n < 20 \<Longrightarrow> countToUse n = 2 * n div 5"
proof -
  assume "6 \<le> n" "n < 20"
  then have "n \<in> set [6 ..< 20]" by (simp only: set_upt atLeastLessThan_iff)
  with countToUse_middle show ?thesis
    unfolding list_all_iff by blast
qed

lemma countToUse_le: "3 \<le> n \<Longrightarrow> countToUse n \<le> n"
proof -
  assume n: "3 \<le> n"
  consider "20 \<le> n" | "6 \<le> n" "n < 20" | "n < 6" by linarith
  then show ?thesis
  proof cases
    case 1
    then show ?thesis by (simp add: countToUse_def)
  next
    case 2
    then show ?thesis by (simp add: countToUse_div)
  next
    case 3
    with n show ?thesis by (simp add: countToUse_def)
  qed
qed

lemma fl_double:
  assumes "fl x = x"
  shows "fl (2 * x) = 2 * x"
proof (cases "x = 0")
  case True
  then show ?thesis by (simp add: fl_def)
next
  case False
  let ?n = "round_even (x / quantum x)"
  from fixed_point_multiple [OF assms] have xn: "x / quantum x = of_int ?n" .
  have q: "0 < quantum x" by (rule quantum_pos)
  from xn q have x: "x = of_int ?n * quantum x" by (simp add: field_simps)
  have e2: "expo (2 * x) = expo x + 1"
  proof (rule expo_unique)
    have "pow2 (expo x + 1) = pow2 (expo x) * pow2 1" by (rule pow2_add)
    then show "pow2 (expo x + 1) \<le> \<bar>2 * x\<bar>"
      using expo_bounds [OF False] by (simp add: pow2_def abs_mult)
    have "pow2 (expo x + 1 + 1) = pow2 (expo x + 1) * pow2 1" by (rule pow2_add)
    then show "\<bar>2 * x\<bar> < pow2 (expo x + 1 + 1)"
      using expo_bounds [OF False] by (simp add: pow2_def abs_mult)
  qed
  show ?thesis
  proof (cases "- 1022 \<le> expo x")
    case True
    then have "max (expo (2 * x)) (- 1022) - 52 = 1 + (max (expo x) (- 1022) - 52)"
      unfolding e2 by linarith
    then have "quantum (2 * x) = pow2 (1 + (max (expo x) (- 1022) - 52))"
      by (simp only: quantum_def)
    also have "\<dots> = pow2 1 * quantum x"
      unfolding quantum_def by (rule pow2_add)
    finally have q2: "quantum (2 * x) = 2 * quantum x" by (simp add: pow2_def)
    then have "2 * x / quantum (2 * x) = x / quantum x" by simp
    with xn have "round_even (2 * x / quantum (2 * x)) = ?n"
      by (simp only: round_even_of_int)
    then show ?thesis
      using x q2 by (simp add: fl_eq [of "2 * x"])
  next
    case lo: False
    then have "max (expo (2 * x)) (- 1022) = max (expo x) (- 1022)"
      unfolding e2 by linarith
    then have q2: "quantum (2 * x) = quantum x" by (rule quantum_eq)
    from xn have "2 * x / quantum x = of_int (2 * ?n)" by simp
    then have "round_even (2 * x / quantum (2 * x)) = 2 * ?n"
      unfolding q2 by (simp only: round_even_of_int)
    then show ?thesis
      using x q2 by (simp add: fl_eq [of "2 * x"])
  qed
qed

lemma pow2_numerals:
  "pow2 1 = 2" "pow2 7 = 128" "pow2 10 = 1024" "pow2 (- 10) = 1 / 1024"
  by (simp_all add: pow2_def)

lemma calculateScoreDifferential_value:
  assumes "calculateScoreDifferential score cr sr nHoles = Some v"
  shows "sr \<noteq> 0 \<and>
     v = fdiv (fmul (fsub (if nHoles = 9 then fmul score 2 else score)
                          (if nHoles = 9 then fmul cr 2 else cr)) 113) sr"
  using assms unfolding calculateScoreDifferential_def
  by (auto simp: bind_eq_Some_conv dest!: finite_number_cases split: if_splits)

lemma calculateScoreDifferential_total:
  assumes s: "0 < score" "score \<le> pow2 1000" and c: "0 < cr" "cr \<le> pow2 1000"
    and sl: "pow2 (- 10) \<le> sr"
  shows "calculateScoreDifferential score cr sr nHoles =
     Some (fdiv (fmul (fsub (if nHoles = 9 then fmul score 2 else score)
                            (if nHoles = 9 then fmul cr 2 else cr)) 113) sr)"
proof -
  define A where "A = (if nHoles = 9 then fmul score 2 else score)"
  define B where "B = (if nHoles = 9 then fmul cr 2 else cr)"
  define D where "D = fsub A B"
  define M where "M = fmul D 113"
  define V where "V = fdiv M sr"
  have p1001: "2 * pow2 1000 = pow2 1001"
    using pow2_add [of 1 1000] by (simp add: pow2_numerals)
  have p1008: "128 * pow2 1001 = pow2 1008"
    using pow2_add [of 7 1001] by (simp add: pow2_numerals)
  have p1018: "1024 * pow2 1008 = pow2 1018"
    using pow2_add [of 10 1008] by (simp add: pow2_numerals)
  have m1: "pow2 1000 \<le> pow2 1001" "pow2 1001 \<le> pow2 1023" "pow2 1008 \<le> pow2 1023"
    "pow2 1018 \<le> pow2 1023"
    by (rule pow2_mono, simp)+
  have bound: "0 \<le> (if nHoles = 9 then fmul x 2 else x)
      \<and> (if nHoles = 9 then fmul x 2 else x) \<le> pow2 1001"
    if "0 < x" "x \<le> pow2 1000" for x
  proof (cases "nHoles = 9")
    case True
    from that p1001 have "\<bar>x * 2\<bar> \<le> pow2 1001" by simp
    then have "\<bar>fl (x * 2)\<bar> \<le> pow2 1001"
      by (intro fl_abs_le_pow2) simp_all
    moreover from that have "0 \<le> fl (x * 2)" by (intro fl_nonneg) simp
    ultimately show ?thesis using True by (simp add: fmul_def)
  next
    case False
    with that m1 show ?thesis by simp
  qed
  from bound [OF s] have A: "0 \<le> A" "A \<le> pow2 1001" by (simp_all add: A_def)
  from bound [OF c] have B: "0 \<le> B" "B \<le> pow2 1001" by (simp_all add: B_def)
  from A B have "\<bar>A - B\<bar> \<le> pow2 1001" by simp
  then have D: "\<bar>D\<bar> \<le> pow2 1001"
    unfolding D_def fsub_def by (intro fl_abs_le_pow2) simp_all
  then have "\<bar>D * 113\<bar> \<le> pow2 1008"
    using p1008 by (simp add: abs_mult)
  then have M: "\<bar>M\<bar> \<le> pow2 1008"
    unfolding M_def fmul_def by (intro fl_abs_le_pow2) simp_all
  from sl have sr: "0 < sr" "1 / 1024 \<le> sr"
    using pow2_pos [of "- 10"] by (simp_all add: pow2_numerals)
  then have "\<bar>M\<bar> * 1 \<le> \<bar>M\<bar> * (sr * 1024)"
    by (intro mult_left_mono) simp_all
  with sr have "\<bar>M\<bar> / sr \<le> \<bar>M\<bar> * 1024"
    by (simp add: field_simps)
  with M p1018 sr have "\<bar>M / sr\<bar> \<le> pow2 1018"
    by simp
  then have V: "\<bar>V\<bar> \<le> pow2 1018"
    unfolding V_def fdiv_def by (intro fl_abs_le_pow2) simp_all
  from A B D M V m1 have
    "finite_number A = Some A" "finite_number B = Some B" "finite_number D = Some D"
    "finite_number M = Some M" "finite_number V = Some V"
    by (auto intro!: finite_number_Some)
  with sr show ?thesis
    unfolding calculateScoreDifferential_def
    by (simp add: A_def [symmetric] B_def [symmetric] D_def [symmetric] M_def [symmetric]
        V_def [symmetric])
qed

lemma newHandicap_floor:
  "newHandicap ds = fdiv (of_int \<lfloor>fmul (averageDifferential ds) 10 + 1 / 2\<rfloor>) 10"
  by (simp add: newHandicap_def Math_round_def)

lemma round_tenth_near:
  fixes a :: rat
  shows "\<bar>fdiv (Math_round (fmul a 10)) 10 - a\<bar> \<le> 1 / 20 + (\<bar>a\<bar> + 1) / 2 ^ 51"
proof -
  define p where "p = fmul a 10"
  define k where "k = Math_round p"
  define h where "h = fdiv k 10"
  define A where "A = \<bar>a\<bar>"
  define K where "K = \<bar>k\<bar>"
  have u: "(2 :: rat) ^ 53 = 9007199254740992" "(2 :: rat) ^ 51 = 2251799813685248"
    by simp_all
  have A: "0 \<le> A" "a \<le> A" "- a \<le> A"
    by (simp_all add: A_def)
  have a10: "\<bar>a * 10\<bar> = 10 * A" by (simp add: abs_mult A_def)
  have k10: "\<bar>k / 10\<bar> = K / 10" by (simp add: K_def)
  have "\<bar>p - a * 10\<bar> \<le> (\<bar>a * 10\<bar> + 1) / 2 ^ 53"
    unfolding p_def fmul_def by (rule fl_error_simple)
  then have e1: "p - a * 10 \<le> 10 * A / 9007199254740992 + 1 / 9007199254740992"
    "a * 10 - p \<le> 10 * A / 9007199254740992 + 1 / 9007199254740992"
    unfolding a10 u add_divide_distrib abs_le_iff by simp_all
  have e2: "k - p \<le> 1 / 2" "p - k \<le> 1 / 2"
    using Math_round_upper [of p] Math_round_lower [of p] unfolding k_def by simp_all
  have "\<bar>h - k / 10\<bar> \<le> (\<bar>k / 10\<bar> + 1) / 2 ^ 53"
    unfolding h_def fdiv_def by (rule fl_error_simple)
  then have e3: "h - k / 10 \<le> K / 10 / 9007199254740992 + 1 / 9007199254740992"
    "k / 10 - h \<le> K / 10 / 9007199254740992 + 1 / 9007199254740992"
    unfolding k10 u add_divide_distrib abs_le_iff by simp_all
  have kb: "K \<le> 11 * A + 1"
    unfolding K_def abs_le_iff using e1 e2 A by simp
  have "h - a \<le> 1 / 20 + A / 2251799813685248 + 1 / 2251799813685248"
    "a - h \<le> 1 / 20 + A / 2251799813685248 + 1 / 2251799813685248"
    using e1 e2 e3 kb A by simp_all
  then have "\<bar>h - a\<bar> \<le> 1 / 20 + (\<bar>a\<bar> + 1) / 2 ^ 51"
    unfolding u add_divide_distrib abs_le_iff A_def by simp
  then show ?thesis
    by (simp add: h_def k_def p_def)
qed


section \<open>Coupling of the handlers\<close>

lemma coupledD:
  assumes "coupled_from P m" "P w1 w2" "m w1 = (r1, v1)" "m w2 = (r2, v2)"
  shows "r1 = r2 \<and> agree v1 v2"
proof -
  from assms(1,2) have "fst (m w1) = fst (m w2) \<and> agree (snd (m w1)) (snd (m w2))"
    unfolding coupled_from_def by blast
  with assms(3,4) show ?thesis by simp
qed

lemma coupledI:
  assumes "\<And>w1 w2 r1 v1 r2 v2. P w1 w2 \<Longrightarrow> m w1 = (r1, v1) \<Longrightarrow> m w2 = (r2, v2) \<Longrightarrow> r1 = r2 \<and> agree v1 v2"
  shows "coupled_from P m"
  unfolding coupled_from_def
proof (intro allI impI)
  fix w1 w2 assume "P w1 w2"
  from assms [OF this, of "fst (m w1)" "snd (m w1)" "fst (m w2)" "snd (m w2)"]
  show "fst (m w1) = fst (m w2) \<and> agree (snd (m w1)) (snd (m w2))"
    by simp
qed

lemma coupled_ret: "coupled (ret x)"
  by (simp add: coupled_from_def ret_def)

lemma coupled_throw: "coupled (throw e)"
  by (simp add: coupled_from_def throw_def)

lemma coupled_logger: "coupled (logger entry)"
  by (simp add: coupled_from_def logger_def agree_def)

lemma coupled_uuidv4: "coupled uuidv4"
  by (auto simp: coupled_from_def uuidv4_def agree_def split: list.splits)

lemma coupled_bnd:
  assumes m: "coupled_from P m" and f: "\<And>x. coupled (f x)"
  shows "coupled_from P (bnd m f)"
proof (rule coupledI)
  fix w1 w2 r1 v1 r2 v2
  assume P: "P w1 w2" and b1: "bnd m f w1 = (r1, v1)" and b2: "bnd m f w2 = (r2, v2)"
  obtain s1 u1 where s1: "m w1 = (s1, u1)" by (cases "m w1")
  obtain s2 u2 where s2: "m w2 = (s2, u2)" by (cases "m w2")
  from coupledD [OF m P s1 s2] have eq: "s1 = s2" and ag: "agree u1 u2" by simp_all
  show "r1 = r2 \<and> agree v1 v2"
  proof (cases s1)
    case (Inl e)
    with eq s1 s2 b1 b2 ag show ?thesis by (auto simp: bnd_def)
  next
    case (Inr x)
    with eq s1 s2 b1 b2 have "f x u1 = (r1, v1)" "f x u2 = (r2, v2)"
      by (auto simp: bnd_def)
    with coupledD [OF f ag] show ?thesis by blast
  qed
qed

lemma coupled_try_catch:
  assumes m: "coupled_from P m" and h: "\<And>e. coupled (h e)"
  shows "coupled_from P (try_catch m h)"
proof (rule coupledI)
  fix w1 w2 r1 v1 r2 v2
  assume P: "P w1 w2" and b1: "try_catch m h w1 = (r1, v1)" and b2: "try_catch m h w2 = (r2, v2)"
  obtain s1 u1 where s1: "m w1 = (s1, u1)" by (cases "m w1")
  obtain s2 u2 where s2: "m w2 = (s2, u2)" by (cases "m w2")
  from coupledD [OF m P s1 s2] have eq: "s1 = s2" and ag: "agree u1 u2" by simp_all
  show "r1 = r2 \<and> agree v1 v2"
  proof (cases s1)
    case (Inr x)
    with eq s1 s2 b1 b2 ag show ?thesis by (auto simp: try_catch_def)
  next
    case (Inl e)
    with eq s1 s2 b1 b2 have "h e u1 = (r1, v1)" "h e u2 = (r2, v2)"
      by (auto simp: try_catch_def)
    with coupledD [OF h ag] show ?thesis by blast
  qed
qed

lemma coupled_Promise_all:
  assumes "\<And>p. p \<in> set ps \<Longrightarrow> coupled p"
  shows "coupled (Promise_all ps)"
  using assms
proof (induction ps)
  case Nil
  then show ?case by (simp add: coupled_from_def)
next
  case (Cons p ps)
  have p: "coupled p" and ps: "coupled (Promise_all ps)"
    using Cons by simp_all
  show ?case
  proof (rule coupledI)
    fix w1 w2 r1 v1 r2 v2
    assume a: "agree w1 w2" and b1: "Promise_all (p # ps) w1 = (r1, v1)"
      and b2: "Promise_all (p # ps) w2 = (r2, v2)"
    obtain s1 u1 where s1: "p w1 = (s1, u1)" by (cases "p w1")
    obtain s2 u2 where s2: "p w2 = (s2, u2)" by (cases "p w2")
    from coupledD [OF p a s1 s2] have e1: "s1 = s2" and a1: "agree u1 u2" by simp_all
    obtain t1 x1 where t1: "Promise_all ps u1 = (t1, x1)" by (cases "Promise_all ps u1")
    obtain t2 x2 where t2: "Promise_all ps u2 = (t2, x2)" by (cases "Promise_all ps u2")
    from coupledD [OF ps a1 t1 t2] have e2: "t1 = t2" and a2: "agree x1 x2" by simp_all
    from b1 s1 t1 have "v1 = x1"
      by (simp split: sum.splits)
    moreover from b2 s2 t2 have "v2 = x2"
      by (simp split: sum.splits)
    moreover from b1 b2 s1 s2 t1 t2 e1 e2 have "r1 = r2"
      by (simp split: sum.splits)
    ultimately show "r1 = r2 \<and> agree v1 v2"
      using a2 by simp
  qed
qed

lemma coupled_dynamodb_send:
  assumes c: "\<not> handicapCommand c"
    and eff: "\<And>w1 w2. P w1 w2 \<Longrightarrow> fst (effect w1) = fst (effect w2) \<and> agree (snd (effect w1)) (snd (effect w2))"
    and P: "\<And>w1 w2 os. P w1 w2 \<Longrightarrow> agree w1 w2 \<and> P (w1\<lparr>outcomes := (outcomes w1)(c := os)\<rparr>) (w2\<lparr>outcomes := (outcomes w2)(c := os)\<rparr>)"
  shows "coupled_from P (dynamodb_send c effect)"
proof (rule coupledI)
  fix w1 w2 r1 v1 r2 v2
  assume a: "P w1 w2" and b1: "dynamodb_send c effect w1 = (r1, v1)"
    and b2: "dynamodb_send c effect w2 = (r2, v2)"
  from a have ag: "agree w1 w2" using P by blast
  with c have oc: "outcomes w1 c = outcomes w2 c"
    by (simp add: agree_def)
  show "r1 = r2 \<and> agree v1 v2"
  proof (cases "outcomes w2 c")
    case Nil
    with oc b1 b2 have "r1 = Inr (fst (effect w1))" "v1 = snd (effect w1)"
      "r2 = Inr (fst (effect w2))" "v2 = snd (effect w2)"
      by (auto simp: dynamodb_send_def split: prod.splits)
    with eff [OF a] show ?thesis by simp
  next
    case (Cons rejected rest)
    let ?u1 = "w1\<lparr>outcomes := (outcomes w1)(c := rest)\<rparr>"
    let ?u2 = "w2\<lparr>outcomes := (outcomes w2)(c := rest)\<rparr>"
    from P [OF a, of rest] have pv: "P ?u1 ?u2" by blast
    then have av: "agree ?u1 ?u2" using P by blast
    show ?thesis
    proof (cases rejected)
      case True
      with Cons oc b1 b2 have "r1 = Inl (Rejected c)" "v1 = ?u1" "r2 = Inl (Rejected c)" "v2 = ?u2"
        by (auto simp: dynamodb_send_def Let_def)
      with av show ?thesis by simp
    next
      case False
      with Cons oc b1 b2 have "r1 = Inr (fst (effect ?u1))" "v1 = snd (effect ?u1)"
        "r2 = Inr (fst (effect ?u2))" "v2 = snd (effect ?u2)"
        by (auto simp: dynamodb_send_def Let_def split: prod.splits)
      with eff [OF pv] show ?thesis by simp
    qed
  qed
qed

lemma agree_outcomes_upd:
  "agree w1 w2 \<Longrightarrow> agree (w1\<lparr>outcomes := (outcomes w1)(c := os)\<rparr>) (w2\<lparr>outcomes := (outcomes w2)(c := os)\<rparr>)"
  by (simp add: agree_def)

lemma coupled_send_QueryCommand:
  "\<not> handicapCommand (QueryCommand uid d c fwd lm) \<Longrightarrow> coupled (send_QueryCommand uid d c fwd lm)"
  unfolding send_QueryCommand_def
  by (rule coupled_dynamodb_send) (simp_all add: agree_def)

lemma coupled_send_GetCourse: "coupled (send_GetCourse key)"
  unfolding send_GetCourse_def
  by (rule coupled_dynamodb_send) (simp_all add: agree_def)

lemma coupled_send_GetRound: "coupled (send_GetRound key)"
  unfolding send_GetRound_def
  by (rule coupled_dynamodb_send) (simp_all add: agree_def)

lemma coupled_send_PutCommand: "coupled (send_PutCommand item)"
  unfolding send_PutCommand_def
  by (rule coupled_dynamodb_send) (simp_all add: agree_def)

lemma coupled_send_DeleteCommand: "coupled (send_DeleteCommand key)"
  unfolding send_DeleteCommand_def
  by (rule coupled_dynamodb_send) (simp_all add: agree_def)

lemma frame_refl: "frame w w"
  by (simp add: frame_def)

lemma frame_trans: "frame w v \<Longrightarrow> frame v u \<Longrightarrow> frame w u"
  by (simp add: frame_def)

lemma frame_agree: "agree w1 w2 \<Longrightarrow> frame w1 v1 \<Longrightarrow> frame w2 v2 \<Longrightarrow> agree v1 v2"
  by (simp add: frame_def agree_def)

lemma frame_logger: "logger entry w = (r, w') \<Longrightarrow> r = Inr () \<and> frame w w'"
  by (auto simp: logger_def frame_def)

lemma frame_send_QueryCommand:
  "send_QueryCommand uid None None False (Some 20) w = (r, w') \<Longrightarrow> frame w w'"
  by (auto simp: send_QueryCommand_def dynamodb_send_def frame_def Let_def
      split: list.splits if_splits)

lemma frame_send_UpdateCommand:
  "send_UpdateCommand uid h w = (r, w') \<Longrightarrow> frame w w'"
  by (auto simp: send_UpdateCommand_def dynamodb_send_def frame_def Let_def
      split: list.splits if_splits)

lemma updateUserHandicap_never_rejects:
  "\<exists>w'. updateUserHandicap uid w = (Inr (), w') \<and> frame w w'"
proof -
  let ?q = "send_QueryCommand uid None None False (Some 20)"
  obtain r1 v1 where q: "?q w = (r1, v1)" by (cases "?q w")
  then have f1: "frame w v1" by (rule frame_send_QueryCommand)
  show ?thesis
  proof (cases r1)
    case (Inl e)
    obtain r2 v2 where l: "logger (LogError ''Error updating handicap:'' e) v1 = (r2, v2)"
      by (cases "logger (LogError ''Error updating handicap:'' e) v1")
    from frame_logger [OF l] f1 have "r2 = Inr ()" "frame w v2"
      by (auto intro: frame_trans)
    with q Inl l show ?thesis
      by (simp add: updateUserHandicap_def try_catch_def bnd_def)
  next
    case (Inr rounds)
    let ?h = "if length rounds = 0 then 54
              else Math_max 0 (Math_min 54 (newHandicap (map scoreDifferential rounds)))"
    obtain r2 v2 where u: "send_UpdateCommand uid ?h v1 = (r2, v2)"
      by (cases "send_UpdateCommand uid ?h v1")
    from frame_send_UpdateCommand [OF u] f1 have f2: "frame w v2"
      by (auto intro: frame_trans)
    show ?thesis
    proof (cases r2)
      case (Inl e)
      obtain r3 v3 where l: "logger (LogError ''Error updating handicap:'' e) v2 = (r3, v3)"
        by (cases "logger (LogError ''Error updating handicap:'' e) v2")
      from frame_logger [OF l] f2 have "r3 = Inr ()" "frame w v3"
        by (auto intro: frame_trans)
      with q \<open>r1 = Inr rounds\<close> u Inl l show ?thesis
        by (simp add: updateUserHandicap_def try_catch_def bnd_def Let_def split: if_splits)
    next
      case (Inr x)
      with q \<open>r1 = Inr rounds\<close> u f2 show ?thesis
        by (auto simp: updateUserHandicap_def try_catch_def bnd_def Let_def ret_def logger_def
            frame_def split: if_splits)
    qed
  qed
qed

lemma coupled_updateUserHandicap: "coupled (updateUserHandicap uid)"
proof (rule coupledI)
  fix w1 w2 r1 v1 r2 v2
  assume a: "agree w1 w2" and b1: "updateUserHandicap uid w1 = (r1, v1)"
    and b2: "updateUserHandicap uid w2 = (r2, v2)"
  from updateUserHandicap_never_rejects [of uid w1] b1 have "r1 = Inr ()" "frame w1 v1"
    by auto
  moreover from updateUserHandicap_never_rejects [of uid w2] b2 have "r2 = Inr ()" "frame w2 v2"
    by auto
  ultimately show "r1 = r2 \<and> agree v1 v2"
    using a by (auto intro: frame_agree)
qed

lemma coupled_case_option:
  "coupled a \<Longrightarrow> (\<And>x. coupled (b x)) \<Longrightarrow> coupled (case v of None \<Rightarrow> a | Some x \<Rightarrow> b x)"
  by (cases v) simp_all

lemma coupled_if: "coupled a \<Longrightarrow> coupled b \<Longrightarrow> coupled (if c then a else b)"
  by simp

lemmas coupled_rules =
  coupled_try_catch coupled_bnd coupled_ret coupled_throw coupled_logger coupled_uuidv4
  coupled_send_GetCourse coupled_send_GetRound coupled_send_PutCommand coupled_send_DeleteCommand
  coupled_updateUserHandicap coupled_case_option coupled_if

lemma coupled_createRound: "coupled (createRound uid rd)"
  unfolding createRound_def Let_def
  by (intro coupled_rules)

lemma coupled_createPlayerRounds:
  "coupled (createPlayerRounds rd playerIds crs pss createdRounds)"
proof (induction pss arbitrary: createdRounds)
  case Nil
  show ?case by (simp add: coupled_ret)
next
  case (Cons ps rest)
  show ?case
    unfolding createPlayerRounds.simps Let_def
    by (intro coupled_rules Cons.IH)
qed

lemma agreeUsers_send_GetUser:
  assumes "agreeUsers w1 w2"
  shows "fst (send_GetUser key w1) = fst (send_GetUser key w2)
       \<and> agreeUsers (snd (send_GetUser key w1)) (snd (send_GetUser key w2))"
proof -
  have c: "\<not> handicapCommand (GetUser key)" by simp
  with assms have "outcomes w1 (GetUser key) = outcomes w2 (GetUser key)"
    by (simp add: agreeUsers_def agree_def)
  with assms show ?thesis
    by (cases "outcomes w2 (GetUser key)")
       (simp_all add: send_GetUser_def dynamodb_send_def Let_def agreeUsers_def agree_def)
qed

lemma agreeUsers_player_checks:
  "agreeUsers w1 w2 \<Longrightarrow>
     fst (Promise_all (map send_GetUser ids) w1) = fst (Promise_all (map send_GetUser ids) w2)
     \<and> agreeUsers (snd (Promise_all (map send_GetUser ids) w1))
          (snd (Promise_all (map send_GetUser ids) w2))"
proof (induction ids arbitrary: w1 w2)
  case Nil
  then show ?case by simp
next
  case (Cons key ids)
  obtain s1 u1 where s1: "send_GetUser key w1 = (s1, u1)" by (cases "send_GetUser key w1")
  obtain s2 u2 where s2: "send_GetUser key w2 = (s2, u2)" by (cases "send_GetUser key w2")
  from agreeUsers_send_GetUser [OF Cons.prems, of key] s1 s2
  have e1: "s1 = s2" and a1: "agreeUsers u1 u2" by simp_all
  let ?rest = "Promise_all (map send_GetUser ids)"
  obtain t1 x1 where t1: "?rest u1 = (t1, x1)" by (cases "?rest u1")
  obtain t2 x2 where t2: "?rest u2 = (t2, x2)" by (cases "?rest u2")
  from Cons.IH [OF a1] t1 t2 have "t1 = t2" "agreeUsers x1 x2" by simp_all
  with e1 s1 s2 t1 t2 show ?case
    by (simp split: sum.splits)
qed

lemma coupled_player_checks: "coupled_from agreeUsers (Promise_all (map send_GetUser ids))"
  unfolding coupled_from_def using agreeUsers_player_checks by (simp add: agreeUsers_def)

lemma coupled_from_agreeUsers: "coupled m \<Longrightarrow> coupled_from agreeUsers m"
  by (simp add: coupled_from_def agreeUsers_def)

lemma coupled_createMultiPlayerRound:
  "coupled_from agreeUsers (createMultiPlayerRound requestingUserId rd)"
  unfolding createMultiPlayerRound_def Let_def
proof (rule coupled_try_catch)
  let ?ids = "map playerId (playerScores rd)"
  show "coupled_from agreeUsers
     (if requestingUserId \<notin> set ?ids then
        ret (Response 403 (Message ''Du maa vaere en av spillerne i runden''))
      else
        bnd (Promise_all (map send_GetUser ?ids)) (\<lambda>playerChecks.
          if length (filter (\<lambda>item. item = None) playerChecks) > 0 then
            ret (Response 400 (Message ''En eller flere spillere finnes ikke i systemet''))
          else
            bnd (send_GetCourse (courseId rd)) (\<lambda>courseItem.
              case courseItem of
                None \<Rightarrow> ret (Response 404 (Message ''Golfbane ikke funnet''))
              | Some crs \<Rightarrow>
                  bnd (createPlayerRounds rd ?ids crs (playerScores rd) []) (\<lambda>createdRounds.
                    ret (Response 201 (RoundsCreated (length createdRounds) createdRounds))))))"
  proof (cases "requestingUserId \<notin> set ?ids")
    case True
    then show ?thesis
      by (simp add: coupled_from_agreeUsers coupled_ret)
  next
    case False
    then show ?thesis
      by (simp only: if_False)
         (intro coupled_bnd coupled_player_checks coupled_rules coupled_createPlayerRounds)
  qed
next
  fix e
  show "coupled (bnd (logger (LogError ''Create multi-player round error:'' e))
                  (\<lambda>_. ret (Response 500 (Message ''Kunne ikke opprette runde''))))"
    by (intro coupled_rules)
qed

lemma coupled_deleteRound: "coupled (deleteRound uid rid)"
  unfolding deleteRound_def Let_def
  by (intro coupled_rules coupled_Promise_all)
     (auto intro: coupled_rules coupled_send_QueryCommand)


section \<open>The query, the stored handicap and the history\<close>

lemma numberOfScoresToUse_stepTable: "1 \<le> n \<Longrightarrow> numberOfScoresToUse n = stepTable n"
  by (simp add: numberOfScoresToUse_def stepTable_def)

lemma runQuery_limit:
  "runQuery uid None None fwd (Some n) tbl = take n (runQuery uid None None fwd None tbl)"
  by (simp add: runQuery_def Let_def)

lemma set_runQuery_all:
  "set (runQuery uid None None fwd None tbl) = {r \<in> set tbl. userId r = uid}"
  by (auto simp: runQuery_def Let_def userId_date_index_def)

lemma sorted_runQuery_descending:
  "sorted (rev (map date (runQuery uid None None False None tbl)))"
  by (simp add: runQuery_def Let_def userId_date_index_def rev_map [symmetric])

lemma updateUserHandicap_success:
  assumes q: "outcomes w (QueryCommand uid None None False (Some 20)) = []"
    and u: "\<forall>h. outcomes w (UpdateCommand uid h) = []"
  shows "fst (updateUserHandicap uid w) = Inr () \<and>
     USERS (snd (updateUserHandicap uid w)) =
       (USERS w)(uid \<mapsto> computeHandicap (map scoreDifferential
          (runQuery uid None None False (Some 20) (ROUNDS w))))"
  using q u
  by (simp add: updateUserHandicap_def try_catch_def bnd_def send_QueryCommand_def
      send_UpdateCommand_def dynamodb_send_def ret_def logger_def computeHandicap_def Let_def)

lemma updateUserHandicap_query_rejected:
  assumes "outcomes w (QueryCommand uid None None False (Some 20)) = True # rest"
  shows "updateUserHandicap uid w =
     (Inr (), w\<lparr>outcomes := (outcomes w)(QueryCommand uid None None False (Some 20) := rest),
               logged := logged w @ [LogError ''Error updating handicap:''
                            (Rejected (QueryCommand uid None None False (Some 20)))]\<rparr>)"
  using assms
  by (simp add: updateUserHandicap_def try_catch_def bnd_def send_QueryCommand_def
      dynamodb_send_def logger_def)

lemma updateUserHandicap_update_rejected:
  assumes q: "outcomes w (QueryCommand uid None None False (Some 20)) = []"
    and ds: "ds = map scoreDifferential (runQuery uid None None False (Some 20) (ROUNDS w))"
    and u: "outcomes w (UpdateCommand uid (computeHandicap ds)) = True # rest"
  shows "updateUserHandicap uid w =
     (Inr (), w\<lparr>outcomes := (outcomes w)(UpdateCommand uid (computeHandicap ds) := rest),
               logged := logged w @ [LogError ''Error updating handicap:''
                            (Rejected (UpdateCommand uid (computeHandicap ds)))]\<rparr>)"
proof (cases "runQuery uid None None False (Some 20) (ROUNDS w) = []")
  case True
  with ds have "computeHandicap ds = 54"
    by (simp add: computeHandicap_def)
  with q u True show ?thesis
    by (simp add: updateUserHandicap_def try_catch_def bnd_def send_QueryCommand_def
        send_UpdateCommand_def dynamodb_send_def logger_def)
next
  case False
  with ds have "computeHandicap ds = Math_max 0 (Math_min 54 (newHandicap ds))"
    by (simp add: computeHandicap_def)
  with q u False ds show ?thesis
    by (simp add: updateUserHandicap_def try_catch_def bnd_def send_QueryCommand_def
        send_UpdateCommand_def dynamodb_send_def logger_def Let_def)
qed

lemma historyHandicap_range: "0 \<le> historyHandicap cur \<and> historyHandicap cur \<le> 54"
  using clamp_range by (simp add: historyHandicap_def Let_def)

lemma historyHandicap_few: "length cur < 3 \<Longrightarrow> historyHandicap cur = 54"
  by (simp add: historyHandicap_def)

lemma historyHandicap_many:
  assumes "3 \<le> length cur"
  shows "historyHandicap cur =
     Math_max 0 (Math_min 54
       (fmul (fdiv (reduce_sum (take (countToUse (length cur)) (sort cur)))
                   (of_nat (countToUse (length cur))))
             (fl (96 / 100))))"
proof -
  have "length (take (countToUse (length cur)) (sort cur)) = countToUse (length cur)"
    using countToUse_le [OF assms] by simp
  with assms show ?thesis
    by (simp add: historyHandicap_def Let_def slice0_def sort_ascending_def)
qed

lemma handicapHistory_nth:
  "i < length rounds \<Longrightarrow>
     handicapHistory rounds ! i =
       \<lparr> entry_date = fst (rounds ! i),
         entry_handicap =
           fdiv (Math_round (fmul (historyHandicap (map snd (take (i + 1) rounds))) 10)) 10,
         entry_scoreDifferential = snd (rounds ! i) \<rparr>"
  by (simp add: handicapHistory_def historyAt_def Let_def slice0_def)

lemma round_tenth_54: "fdiv (Math_round (fmul 54 10)) 10 = 54"
  by code_simp

lemma getHandicapHistory_body:
  "fst (getHandicapHistory uid w) = Inr (Response 200 (History entries)) \<Longrightarrow>
     \<exists>rounds. entries = handicapHistory rounds"
proof -
  assume r: "fst (getHandicapHistory uid w) = Inr (Response 200 (History entries))"
  obtain q v where q: "send_QueryCommand uid None None True None w = (q, v)"
    by (cases "send_QueryCommand uid None None True None w")
  show ?thesis
  proof (cases q)
    case (Inl e)
    with q r show ?thesis
      by (simp add: getHandicapHistory_def try_catch_def bnd_def ret_def logger_def)
  next
    case (Inr rounds)
    with q r have "entries = handicapHistory (map (\<lambda>r. (date r, scoreDifferential r)) rounds)"
      by (simp add: getHandicapHistory_def try_catch_def bnd_def ret_def)
    then show ?thesis by blast
  qed
qed


section \<open>Runs on the example data\<close>

lemma createRound_failingWorld:
  "fst (createRound ''u1'' exampleRoundData failingWorld)
     = Inr (Response 201 (RoundBody exampleRound))
   \<and> ROUNDS (snd (createRound ''u1'' exampleRoundData failingWorld)) = [exampleRound]
   \<and> USERS (snd (createRound ''u1'' exampleRoundData failingWorld)) ''u1'' = Some 36
   \<and> logged (snd (createRound ''u1'' exampleRoundData failingWorld))
        = [LogError ''Error updating handicap:''
             (Rejected (QueryCommand ''u1'' None None False (Some 20)))]"
  by code_simp

lemma createMultiPlayerRound_failingWorld:
  "fst (createMultiPlayerRound ''u1'' exampleMultiPlayerRoundData failingWorld)
     = Inr (Response 201 (RoundsCreated 2 [exampleRound\<lparr>players := [''u2'']\<rparr>, secondRound]))
   \<and> ROUNDS (snd (createMultiPlayerRound ''u1'' exampleMultiPlayerRoundData failingWorld))
        = [exampleRound\<lparr>players := [''u2'']\<rparr>, secondRound]"
  by code_simp

lemma deleteRound_failingWorld:
  "fst (deleteRound ''u1'' ''r1'' (failingWorld\<lparr>ROUNDS := [exampleRound]\<rparr>))
     = Inr (Response 200 (RoundsDeleted 1))
   \<and> ROUNDS (snd (deleteRound ''u1'' ''r1'' (failingWorld\<lparr>ROUNDS := [exampleRound]\<rparr>))) = []
   \<and> USERS (snd (deleteRound ''u1'' ''r1'' (failingWorld\<lparr>ROUNDS := [exampleRound]\<rparr>))) ''u1''
        = Some 36"
  by code_simp

lemma exampleTable_all:
  "map scoreDifferential (runQuery ''u1'' None None False None exampleTable) = [21, 20, 19, 18, 17, 16, 15, 14, 13, 12, 11, 10, 9, 8, 7, 6, 5, 4, 3, 2, 1]"
  by code_simp

lemma exampleTable_latest:
  "map scoreDifferential (take 20 (runQuery ''u1'' None None False None exampleTable)) = [21, 20, 19, 18, 17, 16, 15, 14, 13, 12, 11, 10, 9, 8, 7, 6, 5, 4, 3, 2]"
  by code_simp

lemma example_best: "take 8 (sort [21, 20, 19, 18, 17, 16, 15, 14, 13, 12, 11, 10, 9, 8, 7, 6, 5, 4, 3, 2 :: rat]) = [2, 3, 4, 5, 6, 7, 8, 9]"
  by code_simp

lemma example_handicap: "computeHandicap [21, 20, 19, 18, 17, 16, 15, 14, 13, 12, 11, 10, 9, 8, 7, 6, 5, 4, 3, 2] = 11 / 2"
  by code_simp

lemma getHandicapHistory_historyWorld:
  "fst (getHandicapHistory ''u1'' historyWorld) =
     Inr (Response 200 (History
       [\<lparr>entry_date = ''2024-01-01'', entry_handicap = 54, entry_scoreDifferential = 5\<rparr>,
        \<lparr>entry_date = ''2024-01-02'', entry_handicap = 54, entry_scoreDifferential = 10\<rparr>,
        \<lparr>entry_date = ''2024-01-03'', entry_handicap = fl (24 / 5), entry_scoreDifferential = 15\<rparr>]))"
  by code_simp


section \<open>Claims about the count table\<close>

text \<open>
  C1. For a user with at least one round, with roundCount the smaller of 20 and the number
  of the user's rounds, \<open>updateUserHandicap\<close> averages exactly as many of the lowest
  differentials as the step table gives for roundCount: 1 for 1 and 2, 2 for 3 to 5, 3 for
  6 to 8, 4 for 9 to 11, 5 for 12 to 15, 6 for 16 to 18, 7 for 19 and 8 from 20 on. The
  rounds considered are the first 20 of the user's rounds by descending date, so with
  more than 20 rounds only the 20 most recent count. When no send is rejected, the
  handicap that \<open>updateUserHandicap\<close> stores for the user is the clamped, rounded average
  of these \<open>stepTable roundCount\<close> lowest differentials, which is \<open>computeHandicap\<close> of the
  differentials considered.
\<close>

theorem updateUserHandicap_step_table:
  assumes "outcomes w = (\<lambda>c. [])"
    and "available = runQuery uid None None False None (ROUNDS w)"
    and "available \<noteq> []"
    and "roundCount = min 20 (length available)"
    and "ds = map scoreDifferential (take 20 available)"
    and "selected = take (stepTable roundCount) (sort ds)"
  shows "set available = {r \<in> set (ROUNDS w). userId r = uid}
     \<and> sorted (rev (map date available))
     \<and> length ds = roundCount
     \<and> length selected = stepTable roundCount
     \<and> bestDifferentials ds = selected
     \<and> averageDifferential ds = fdiv (reduce_sum selected) (of_nat (stepTable roundCount))
     \<and> computeHandicap ds =
         Math_max 0 (Math_min 54
           (fdiv (Math_round (fmul (fdiv (reduce_sum selected) (of_nat (stepTable roundCount))) 10))
              10))
     \<and> fst (updateUserHandicap uid w) = Inr ()
     \<and> USERS (snd (updateUserHandicap uid w)) = (USERS w)(uid \<mapsto> computeHandicap ds)
     \<and> map stepTable [1 ..< 21]
         = [1, 1, 2, 2, 2, 3, 3, 3, 4, 4, 4, 5, 5, 5, 5, 6, 6, 6, 7, 8]"
proof -
  have s: "set available = {r \<in> set (ROUNDS w). userId r = uid}"
    unfolding assms(2) by (rule set_runQuery_all)
  have d: "sorted (rev (map date available))"
    unfolding assms(2) by (rule sorted_runQuery_descending)
  have len: "length ds = roundCount"
    by (simp add: assms(4,5) min.commute)
  from assms(3,5) have dne: "ds \<noteq> []"
    by (cases available) simp_all
  then have pos: "1 \<le> length ds"
    by (simp add: Suc_le_eq)
  then have k: "numberOfScoresToUse (length ds) = stepTable roundCount"
    unfolding len [symmetric] by (rule numberOfScoresToUse_stepTable)
  have b: "bestDifferentials ds = selected"
    by (simp add: bestDifferentials_def slice0_def sort_ascending_def k assms(6))
  have l: "length selected = stepTable roundCount"
    using length_bestDifferentials [OF dne] k b by simp
  have a: "averageDifferential ds = fdiv (reduce_sum selected) (of_nat (stepTable roundCount))"
    by (simp add: averageDifferential_def b l)
  have c: "computeHandicap ds =
         Math_max 0 (Math_min 54
           (fdiv (Math_round (fmul (fdiv (reduce_sum selected) (of_nat (stepTable roundCount))) 10))
              10))"
    using dne by (simp add: computeHandicap_def newHandicap_def a)
  have q: "runQuery uid None None False (Some 20) (ROUNDS w) = take 20 available"
    unfolding assms(2) by (rule runQuery_limit)
  have u: "fst (updateUserHandicap uid w) = Inr () \<and>
      USERS (snd (updateUserHandicap uid w)) = (USERS w)(uid \<mapsto> computeHandicap ds)"
    using updateUserHandicap_success [of w uid] assms(1)
    by (simp add: q assms(5))
  have t: "map stepTable [1 ..< 21]
         = [1, 1, 2, 2, 2, 3, 3, 3, 4, 4, 4, 5, 5, 5, 5, 6, 6, 6, 7, 8]"
    by code_simp
  from s d len l b a c u t show ?thesis
    by blast
qed

text \<open>
  A user with 21 rounds, the differential of day \<open>i\<close> being \<open>i\<close>: the 20 most recent have the
  differentials 21 down to 2, the 8 lowest of them, 2 to 9, are averaged, and the stored
  handicap changes from 36 to 5.5.
\<close>

theorem updateUserHandicap_step_table_witness:
  "outcomes (exampleWorld\<lparr>ROUNDS := exampleTable\<rparr>) = (\<lambda>c. [])
   \<and> runQuery ''u1'' None None False None (ROUNDS (exampleWorld\<lparr>ROUNDS := exampleTable\<rparr>)) \<noteq> []
   \<and> length (runQuery ''u1'' None None False None (ROUNDS (exampleWorld\<lparr>ROUNDS := exampleTable\<rparr>)))
        = 21
   \<and> map scoreDifferential (take 20
        (runQuery ''u1'' None None False None (ROUNDS (exampleWorld\<lparr>ROUNDS := exampleTable\<rparr>))))
        = [21, 20, 19, 18, 17, 16, 15, 14, 13, 12, 11, 10, 9, 8, 7, 6, 5, 4, 3, 2]
   \<and> stepTable (min 20 21) = 8
   \<and> bestDifferentials [21, 20, 19, 18, 17, 16, 15, 14, 13, 12, 11, 10, 9, 8, 7, 6, 5, 4, 3, 2]
        = [2, 3, 4, 5, 6, 7, 8, 9]
   \<and> USERS exampleWorld ''u1'' = Some 36
   \<and> USERS (snd (updateUserHandicap ''u1'' (exampleWorld\<lparr>ROUNDS := exampleTable\<rparr>))) ''u1''
        = Some (11 / 2)"
proof -
  let ?w = "exampleWorld\<lparr>ROUNDS := exampleTable\<rparr>"
  let ?ds = "[21, 20, 19, 18, 17, 16, 15, 14, 13, 12, 11, 10, 9, 8, 7, 6, 5, 4, 3, 2 :: rat]"
  have o: "outcomes ?w = (\<lambda>c. [])" and r: "ROUNDS ?w = exampleTable"
    and h: "USERS exampleWorld ''u1'' = Some 36"
    by (simp_all add: exampleWorld_def)
  have len: "length (runQuery ''u1'' None None False None (ROUNDS ?w)) = 21"
    unfolding r using arg_cong [OF exampleTable_all, of length] by simp
  then have ne: "runQuery ''u1'' None None False None (ROUNDS ?w) \<noteq> []"
    by auto
  have rc: "(20 :: nat) = min 20 (length (runQuery ''u1'' None None False None (ROUNDS ?w)))"
    unfolding len by simp
  have ds: "?ds = map scoreDifferential (take 20 (runQuery ''u1'' None None False None (ROUNDS ?w)))"
    unfolding r by (rule exampleTable_latest [symmetric])
  have st: "stepTable 20 = 8" "stepTable (min 20 21) = 8"
    by (simp_all add: stepTable_def)
  have sel: "[2, 3, 4, 5, 6, 7, 8, 9] = take (stepTable 20) (sort ?ds)"
    unfolding st by (rule example_best [symmetric])
  from updateUserHandicap_step_table [OF o refl ne rc ds sel]
  have "bestDifferentials ?ds = [2, 3, 4, 5, 6, 7, 8, 9]"
    and "USERS (snd (updateUserHandicap ''u1'' ?w)) = (USERS ?w)(''u1'' \<mapsto> computeHandicap ?ds)"
    by blast+
  then have "bestDifferentials ?ds = [2, 3, 4, 5, 6, 7, 8, 9]"
    and "USERS (snd (updateUserHandicap ''u1'' ?w)) ''u1'' = Some (11 / 2)"
    by (simp_all add: example_handicap)
  with o ne len ds [symmetric] st h show ?thesis
    by simp
qed


section \<open>Claims about the score differential\<close>

text \<open>
  C2. \<open>calculateScoreDifferential\<close> returns \<^verbatim>\<open>((adjustedScore - adjustedRating) * 113) / slopeRating\<close>,
  each of the operations rounded to binary64, where the adjusted score and rating are the
  inputs doubled for 9 holes and unchanged otherwise, and nothing else is applied to the
  result: whenever the result is a finite number it is this value, and it is a finite
  number for a positive score and rating up to \<open>pow2 1000\<close>, a slope from \<open>pow2 (- 10)\<close> on
  and 9 or 18 holes. (Past this range an operation can overflow; JavaScript then
  returns an infinity or \<^verbatim>\<open>NaN\<close>, for which the model has \<open>None\<close>.) The result for 9 holes
  is the result for 18 holes on the doubled score and rating, for all arguments; the
  doubling of a binary64 value is exact. For (72, 72, 113, 18) the result is 0. For
  (90, 73.2, 112, 18) it is the binary64 value 16.949999999999996, not 339/20.
\<close>

theorem calculateScoreDifferential_formula:
  "(calculateScoreDifferential score cr sr nHoles = Some v \<longrightarrow>
      sr \<noteq> 0 \<and>
      v = fdiv (fmul (fsub (if nHoles = 9 then fmul score 2 else score)
                           (if nHoles = 9 then fmul cr 2 else cr)) 113) sr)
   \<and> (0 < score \<and> score \<le> pow2 1000 \<and> 0 < cr \<and> cr \<le> pow2 1000 \<and> pow2 (- 10) \<le> sr \<and>
      (nHoles = 9 \<or> nHoles = 18) \<longrightarrow>
      calculateScoreDifferential score cr sr nHoles =
        Some (fdiv (fmul (fsub (if nHoles = 9 then fmul score 2 else score)
                               (if nHoles = 9 then fmul cr 2 else cr)) 113) sr))
   \<and> calculateScoreDifferential s r sl 9 = calculateScoreDifferential (fmul s 2) (fmul r 2) sl 18
   \<and> (fl s = s \<and> fl r = r \<longrightarrow>
        calculateScoreDifferential s r sl 9 = calculateScoreDifferential (2 * s) (2 * r) sl 18)
   \<and> calculateScoreDifferential 72 72 113 18 = Some 0
   \<and> calculateScoreDifferential 90 (fl (732 / 10)) 112 18
        = Some (2385500427622809 / 140737488355328)"
proof (intro conjI impI)
  assume "calculateScoreDifferential score cr sr nHoles = Some v"
  from calculateScoreDifferential_value [OF this]
  show "sr \<noteq> 0"
    and "v = fdiv (fmul (fsub (if nHoles = 9 then fmul score 2 else score)
                           (if nHoles = 9 then fmul cr 2 else cr)) 113) sr"
    by simp_all
next
  assume "0 < score \<and> score \<le> pow2 1000 \<and> 0 < cr \<and> cr \<le> pow2 1000 \<and> pow2 (- 10) \<le> sr \<and>
      (nHoles = 9 \<or> nHoles = 18)"
  then show "calculateScoreDifferential score cr sr nHoles =
        Some (fdiv (fmul (fsub (if nHoles = 9 then fmul score 2 else score)
                               (if nHoles = 9 then fmul cr 2 else cr)) 113) sr)"
    by (intro calculateScoreDifferential_total) simp_all
next
  show eq: "calculateScoreDifferential s r sl 9
      = calculateScoreDifferential (fmul s 2) (fmul r 2) sl 18"
    by (simp add: calculateScoreDifferential_def)
  assume "fl s = s \<and> fl r = r"
  then have "fmul s 2 = 2 * s" "fmul r 2 = 2 * r"
    using fl_double [of s] fl_double [of r] by (simp_all add: fmul_def mult.commute)
  with eq show "calculateScoreDifferential s r sl 9
      = calculateScoreDifferential (2 * s) (2 * r) sl 18"
    by simp
next
  show "calculateScoreDifferential 72 72 113 18 = Some 0"
    by code_simp
next
  show "calculateScoreDifferential 90 (fl (732 / 10)) 112 18
        = Some (2385500427622809 / 140737488355328)"
    by code_simp
qed

text \<open>
  The formula at (40, 36, 113, 9): the differential is 8, as for (80, 72, 113, 18). A score
  of \<open>pow2 1023\<close> over 9 holes overflows when it is doubled.
\<close>

theorem calculateScoreDifferential_formula_witness:
  "calculateScoreDifferential 40 36 113 9 = Some 8
   \<and> (0 :: rat) < 40 \<and> 40 \<le> pow2 1000 \<and> (0 :: rat) < 36 \<and> 36 \<le> pow2 1000 \<and> pow2 (- 10) \<le> 113
   \<and> ((9 :: nat) = 9 \<or> (9 :: nat) = 18)
   \<and> fl 40 = 40 \<and> fl 36 = 36
   \<and> calculateScoreDifferential 40 36 113 9 = calculateScoreDifferential 80 72 113 18
   \<and> calculateScoreDifferential (pow2 1023) 36 113 9 = None"
proof -
  have o: "calculateScoreDifferential (pow2 1023) 36 113 9 = None"
    by code_simp
  have "pow2 6 \<le> pow2 1000" by (rule pow2_mono) simp
  then have b: "40 \<le> pow2 1000" "36 \<le> pow2 1000" "pow2 (- 10) \<le> 113"
    by (simp_all add: pow2_def)
  have f: "fl 40 = 40" "fl 36 = 36" by code_simp+
  have v: "fdiv (fmul (fsub (fmul 40 2) (fmul 36 2)) 113) 113 = 8" by code_simp
  have n: "2 * 40 = (80 :: rat)" "2 * 36 = (72 :: rat)" by simp_all
  have z: "(0 :: rat) < 40" "(0 :: rat) < 36" by simp_all
  note t = calculateScoreDifferential_formula [of 40 36 113 9 8 40 36 113]
  from t b z have "calculateScoreDifferential 40 36 113 9 =
      Some (fdiv (fmul (fsub (if (9 :: nat) = 9 then fmul 40 2 else 40)
                             (if (9 :: nat) = 9 then fmul 36 2 else 36)) 113) 113)"
    by blast
  then have 1: "calculateScoreDifferential 40 36 113 9 = Some 8"
    by (simp only: refl if_True v)
  from t f have "calculateScoreDifferential 40 36 113 9
      = calculateScoreDifferential (2 * 40) (2 * 36) 113 18"
    by blast
  then have 2: "calculateScoreDifferential 40 36 113 9 = calculateScoreDifferential 80 72 113 18"
    by (simp only: n)
  from 1 2 b f o show ?thesis by simp
qed


section \<open>Claims about the handicap index\<close>

text \<open>
  C3. For an empty list of differentials the handicap is exactly 54, whatever the count
  table says: \<open>updateUserHandicap\<close> for a user without rounds stores 54 and does nothing
  else, when its two sends succeed.
\<close>

theorem computeHandicap_empty:
  "computeHandicap [] = 54
   \<and> (runQuery uid None None False (Some 20) (ROUNDS w) = [] \<longrightarrow>
      outcomes w (QueryCommand uid None None False (Some 20)) = [] \<longrightarrow>
      outcomes w (UpdateCommand uid 54) = [] \<longrightarrow>
      updateUserHandicap uid w = (Inr (), w\<lparr>USERS := (USERS w)(uid \<mapsto> 54)\<rparr>))"
  by (simp add: updateUserHandicap_def try_catch_def bnd_def send_QueryCommand_def
      send_UpdateCommand_def dynamodb_send_def ret_def computeHandicap_def Let_def)

text \<open>
  The user u1 of the example world has no round and the handicap 36; the update stores 54.
\<close>

theorem computeHandicap_empty_witness:
  "runQuery ''u1'' None None False (Some 20) (ROUNDS exampleWorld) = []
   \<and> outcomes exampleWorld (QueryCommand ''u1'' None None False (Some 20)) = []
   \<and> outcomes exampleWorld (UpdateCommand ''u1'' 54) = []
   \<and> USERS exampleWorld ''u1'' = Some 36
   \<and> updateUserHandicap ''u1'' exampleWorld
        = (Inr (), exampleWorld\<lparr>USERS := (USERS exampleWorld)(''u1'' \<mapsto> 54)\<rparr>)"
proof -
  have "runQuery ''u1'' None None False (Some 20) (ROUNDS exampleWorld) = []"
    "outcomes exampleWorld (QueryCommand ''u1'' None None False (Some 20)) = []"
    "outcomes exampleWorld (UpdateCommand ''u1'' 54) = []"
    "USERS exampleWorld ''u1'' = Some 36"
    by (simp_all add: exampleWorld_def runQuery_def userId_date_index_def)
  with computeHandicap_empty [of "''u1''" exampleWorld] show ?thesis
    by simp
qed

text \<open>
  C4. For every list of differentials the handicap lies in the closed interval from 0 to
  54: the rounded average is clamped as the last step. A non-empty list of negative
  differentials gives exactly 0, and a list whose best differentials average above 54
  gives exactly 54.
\<close>

theorem computeHandicap_range:
  "0 \<le> computeHandicap ds \<and> computeHandicap ds \<le> 54
   \<and> (ds \<noteq> [] \<longrightarrow> computeHandicap ds = Math_max 0 (Math_min 54 (newHandicap ds)))
   \<and> (ds \<noteq> [] \<and> (\<forall>d\<in>set ds. d < 0) \<longrightarrow> computeHandicap ds = 0)
   \<and> (ds \<noteq> [] \<and> 54 < averageDifferential ds \<longrightarrow> computeHandicap ds = 54)"
proof (intro conjI impI)
  show "0 \<le> computeHandicap ds" "computeHandicap ds \<le> 54"
    using clamp_range [of "newHandicap ds"] by (simp_all add: computeHandicap_def)
next
  assume "ds \<noteq> []"
  then show "computeHandicap ds = Math_max 0 (Math_min 54 (newHandicap ds))"
    by (simp add: computeHandicap_def)
next
  assume a: "ds \<noteq> [] \<and> (\<forall>d\<in>set ds. d < 0)"
  then have "averageDifferential ds \<le> 0"
    using averageDifferential_nonpos [of ds] by simp
  then have "newHandicap ds \<le> 0"
    unfolding newHandicap_def by (rule round_tenth_nonpos)
  with a show "computeHandicap ds = 0"
    by (simp add: computeHandicap_def Math_max_def Math_min_def)
next
  assume a: "ds \<noteq> [] \<and> 54 < averageDifferential ds"
  then have "54 \<le> averageDifferential ds"
    by simp
  then have "54 \<le> newHandicap ds"
    unfolding newHandicap_def by (rule round_tenth_lower)
  with a show "computeHandicap ds = 54"
    by (simp add: computeHandicap_def Math_max_def Math_min_def)
qed

text \<open>Two negative differentials give 0; one differential of 60 gives 54.\<close>

theorem computeHandicap_range_witness:
  "[-3, -5 :: rat] \<noteq> [] \<and> (-3 :: rat) < 0 \<and> (-5 :: rat) < 0 \<and> computeHandicap [-3, -5] = 0
   \<and> [60 :: rat] \<noteq> [] \<and> 54 < averageDifferential [60] \<and> computeHandicap [60] = 54"
proof -
  have avg: "averageDifferential [60] = 60"
    by code_simp
  show ?thesis
    using computeHandicap_range [of "[-3, -5]"] computeHandicap_range [of "[60]"] avg
    by simp
qed

text \<open>
  C5, as the specification states it, does not hold of the code: the value before the
  clamp is not always the tenth nearest to the mean of the selected differentials. The
  product \<^verbatim>\<open>averageDifferential * 10\<close> is rounded to binary64 before \<^verbatim>\<open>Math.round\<close> sees it, and
  a mean just below the middle of two tenths can give a product that is exactly the
  middle, which goes up. For the single differential 0.15 (the binary64 value, which is
  below 15/100) the mean is this value, 0.1 is less than 1/20 away from it, and the code
  gives 0.2, more than 1/20 away. For the differentials 37, 35.099999999999994 and
  26.200000000000003 the mean of the two lowest is the binary64 value below 30.65, and
  the code gives 30.7, where 30.6 is nearer.
\<close>

theorem newHandicap_nearest_tenth_counterexample:
  "averageDifferential [fl (15 / 100)] = fl (15 / 100)
   \<and> newHandicap [fl (15 / 100)] = fl (2 / 10)
   \<and> \<bar>fl (1 / 10) - averageDifferential [fl (15 / 100)]\<bar> < 1 / 20
   \<and> \<not> \<bar>newHandicap [fl (15 / 100)] - averageDifferential [fl (15 / 100)]\<bar> \<le> 1 / 20
   \<and> averageDifferential [37, 1234971460318003 / 35184372088832,
        1843661097454797 / 70368744177664] = 4313604018090803 / 140737488355328
   \<and> newHandicap [37, 1234971460318003 / 35184372088832,
        1843661097454797 / 70368744177664] = fl (307 / 10)
   \<and> \<bar>fl (306 / 10) - 4313604018090803 / 140737488355328\<bar> < 1 / 20
   \<and> \<not> \<bar>fl (307 / 10) - 4313604018090803 / 140737488355328\<bar> \<le> 1 / 20"
  by code_simp

text \<open>
  C5, amended. Before the clamp, the handicap is \<^verbatim>\<open>Math.round(averageDifferential * 10) / 10\<close>
  in binary64 arithmetic: the product of the mean and 10, rounded to binary64, is rounded
  to the nearest integer, a tie going up (\<open>\<lfloor>p + 1/2\<rfloor>\<close> for the product \<open>p\<close>), and the integer
  is divided by 10 in binary64. The integer is at most 1/2 away from the product, a
  product half-way between \<open>k\<close> and \<open>k + 1\<close> gives \<open>k + 1\<close>, and the result is at most
  \<open>1/20 + (\<bar>mean\<bar> + 1) / 2 ^ 51\<close> away from the mean. A mean of exactly 2.25 gives the binary64
  value 2.3. The clamp is applied to the rounded value.
\<close>

theorem newHandicap_rounding:
  "(ds \<noteq> [] \<longrightarrow> computeHandicap ds = Math_max 0 (Math_min 54 (newHandicap ds)))
   \<and> newHandicap ds = fdiv (of_int \<lfloor>fmul (averageDifferential ds) 10 + 1 / 2\<rfloor>) 10
   \<and> \<bar>of_int \<lfloor>fmul (averageDifferential ds) 10 + 1 / 2\<rfloor> - fmul (averageDifferential ds) 10\<bar>
        \<le> 1 / 2
   \<and> (fmul (averageDifferential ds) 10 = of_int k + 1 / 2 \<longrightarrow>
        newHandicap ds = fdiv (of_int (k + 1)) 10)
   \<and> \<bar>newHandicap ds - averageDifferential ds\<bar>
        \<le> 1 / 20 + (\<bar>averageDifferential ds\<bar> + 1) / 2 ^ 51
   \<and> (averageDifferential ds = 225 / 100 \<longrightarrow> newHandicap ds = fl (23 / 10))"
proof (intro conjI impI)
  assume "ds \<noteq> []"
  then show "computeHandicap ds = Math_max 0 (Math_min 54 (newHandicap ds))"
    by (simp add: computeHandicap_def)
next
  show "newHandicap ds = fdiv (of_int \<lfloor>fmul (averageDifferential ds) 10 + 1 / 2\<rfloor>) 10"
    by (rule newHandicap_floor)
next
  show "\<bar>of_int \<lfloor>fmul (averageDifferential ds) 10 + 1 / 2\<rfloor> - fmul (averageDifferential ds) 10\<bar>
        \<le> 1 / 2"
    using Math_round_upper [of "fmul (averageDifferential ds) 10"]
      Math_round_lower [of "fmul (averageDifferential ds) 10"]
    unfolding Math_round_def by linarith
next
  assume "fmul (averageDifferential ds) 10 = of_int k + 1 / 2"
  then have "\<lfloor>fmul (averageDifferential ds) 10 + 1 / 2\<rfloor> = k + 1"
    by (simp add: floor_unique)
  then show "newHandicap ds = fdiv (of_int (k + 1)) 10"
    by (simp only: newHandicap_floor)
next
  show "\<bar>newHandicap ds - averageDifferential ds\<bar>
        \<le> 1 / 20 + (\<bar>averageDifferential ds\<bar> + 1) / 2 ^ 51"
    unfolding newHandicap_def by (rule round_tenth_near)
next
  assume a: "averageDifferential ds = 225 / 100"
  have "fdiv (Math_round (fmul (225 / 100) 10)) 10 = fl (23 / 10)"
    by code_simp
  with a show "newHandicap ds = fl (23 / 10)"
    by (simp only: newHandicap_def)
qed

text \<open>
  A single differential of 2.25 has the mean 2.25; the product 22.5 is a tie, and the
  handicap is the binary64 value 2.3.
\<close>

theorem newHandicap_rounding_witness:
  "[9 / 4 :: rat] \<noteq> [] \<and> averageDifferential [9 / 4] = 225 / 100
   \<and> fmul (averageDifferential [9 / 4]) 10 = of_int 22 + 1 / 2
   \<and> newHandicap [9 / 4] = fl (23 / 10) \<and> computeHandicap [9 / 4] = fl (23 / 10)
   \<and> fl (23 / 10) = 2589569785738035 / 1125899906842624"
proof -
  have avg: "averageDifferential [9 / 4] = 225 / 100"
    by code_simp
  have tie: "fmul (225 / 100) 10 = of_int 22 + 1 / 2"
    by code_simp
  have v: "fl (23 / 10) = 2589569785738035 / 1125899906842624"
    by code_simp
  have c: "Math_max 0 (Math_min 54 (2589569785738035 / 1125899906842624))
      = 2589569785738035 / 1125899906842624"
    by (simp add: Math_max_def Math_min_def)
  have ne: "[9 / 4 :: rat] \<noteq> []" by simp
  from newHandicap_rounding [of "[9 / 4]" 22] ne avg
  have "computeHandicap [9 / 4] = Math_max 0 (Math_min 54 (newHandicap [9 / 4]))"
    and "newHandicap [9 / 4] = fl (23 / 10)"
    by blast+
  with ne avg tie v c show ?thesis
    by (simp only: simp_thms)
qed


section \<open>Claims about the handicap history\<close>

text \<open>
  C6. For the chronological prefix of \<open>n\<close> rounds the history gives exactly 54 when
  \<open>n < 3\<close>; otherwise it sorts the differentials of the prefix, takes the \<open>countToUse\<close>
  lowest (8 from 20 rounds on, \<^verbatim>\<open>Math.floor(n * 0.4)\<close> from 6 to 19, which is \<open>2 * n div 5\<close>
  also in binary64, and 1 from 3 to 5), averages them, multiplies the average by the
  binary64 value 0.96 and clamps the product into the interval from 0 to 54; sum,
  quotient and product are rounded to binary64. The entry holds this value rounded to
  one decimal, by \<^verbatim>\<open>Math.round(handicap * 10) / 10\<close> in binary64. The count differs from the
  count table of the handicap index: 1 against 2 for three rounds.
\<close>

theorem handicapHistory_algorithm:
  "i < length rounds \<Longrightarrow> n = i + 1 \<Longrightarrow> cur = map snd (take n rounds) \<Longrightarrow>
     length (handicapHistory rounds) = length rounds
     \<and> entry_handicap (handicapHistory rounds ! i)
         = fdiv (Math_round (fmul (historyHandicap cur) 10)) 10
     \<and> (n < 3 \<longrightarrow> historyHandicap cur = 54 \<and> entry_handicap (handicapHistory rounds ! i) = 54)
     \<and> (3 \<le> n \<longrightarrow> historyHandicap cur =
          Math_max 0 (Math_min 54
            (fmul (fdiv (reduce_sum (take (countToUse n) (sort cur))) (of_nat (countToUse n)))
                  (fl (96 / 100)))))
     \<and> (20 \<le> n \<longrightarrow> countToUse n = 8)
     \<and> (6 \<le> n \<and> n < 20 \<longrightarrow> countToUse n = nat \<lfloor>fmul (of_nat n) (fl (4 / 10))\<rfloor>
                              \<and> countToUse n = 2 * n div 5)
     \<and> (3 \<le> n \<and> n < 6 \<longrightarrow> countToUse n = 1)
     \<and> countToUse 3 \<noteq> numberOfScoresToUse 3"
proof -
  assume i: "i < length rounds" and n: "n = i + 1" and cur: "cur = map snd (take n rounds)"
  from i n cur have len: "length cur = n"
    by simp
  have e: "entry_handicap (handicapHistory rounds ! i)
      = fdiv (Math_round (fmul (historyHandicap cur) 10)) 10"
    using handicapHistory_nth [OF i] n cur by simp
  have few: "historyHandicap cur = 54 \<and> entry_handicap (handicapHistory rounds ! i) = 54" if "n < 3"
    using that len e historyHandicap_few [of cur] by (simp add: round_tenth_54)
  have many: "historyHandicap cur =
          Math_max 0 (Math_min 54
            (fmul (fdiv (reduce_sum (take (countToUse n) (sort cur))) (of_nat (countToUse n)))
                  (fl (96 / 100))))"
    if "3 \<le> n"
    using that len historyHandicap_many [of cur] by simp
  have c20: "countToUse n = 8" if "20 \<le> n"
    using that by (simp add: countToUse_def)
  have c6: "countToUse n = nat \<lfloor>fmul (of_nat n) (fl (4 / 10))\<rfloor> \<and> countToUse n = 2 * n div 5"
    if "6 \<le> n \<and> n < 20"
    using that countToUse_div [of n] by (simp add: countToUse_def)
  have c3: "countToUse n = 1" if "3 \<le> n \<and> n < 6"
    using that by (simp add: countToUse_def)
  have d: "countToUse 3 \<noteq> numberOfScoresToUse 3"
    by (simp add: countToUse_def numberOfScoresToUse_def)
  have l: "length (handicapHistory rounds) = length rounds"
    by (simp add: handicapHistory_def)
  from l e few many c20 c6 c3 d show ?thesis
    by blast
qed

text \<open>
  Three rounds with the differentials 1.40625, 2 and 3: the product of 1.40625 and the
  binary64 value 0.96 is 1.3499999999999999, below 1.35, and the third entry is 1.3. Three
  rounds with the differentials 5, 10 and 15: the history gives 4.8 after the third, where
  the handicap index is 7.5.
\<close>

theorem handicapHistory_algorithm_witness:
  "2 < length [(''2024-01-01'', 45 / 32 :: rat), (''2024-01-02'', 2), (''2024-01-03'', 3)]
   \<and> (3 :: nat) = 2 + 1
   \<and> [45 / 32, 2, 3] = map snd (take 3 [(''2024-01-01'', 45 / 32 :: rat), (''2024-01-02'', 2), (''2024-01-03'', 3)])
   \<and> fl (96 / 100) = 1080863910568919 / 1125899906842624
   \<and> historyHandicap [45 / 32, 2, 3] = 6079859496950169 / 4503599627370496
   \<and> historyHandicap [45 / 32, 2, 3] < 135 / 100
   \<and> entry_handicap (handicapHistory
        [(''2024-01-01'', 45 / 32), (''2024-01-02'', 2), (''2024-01-03'', 3)] ! 2) = fl (13 / 10)
   \<and> historyHandicap [5, 10, 15] = fl (24 / 5)
   \<and> computeHandicap [5, 10, 15] = 15 / 2"
proof -
  have f: "fl (96 / 100) = 1080863910568919 / 1125899906842624"
    by code_simp
  have h: "historyHandicap [45 / 32, 2, 3] = 6079859496950169 / 4503599627370496"
    by code_simp
  have h5: "historyHandicap [5, 10, 15] = fl (24 / 5)"
    by code_simp
  have c: "computeHandicap [5, 10, 15] = 15 / 2"
    by code_simp
  have r: "fdiv (Math_round (fmul (6079859496950169 / 4503599627370496) 10)) 10 = fl (13 / 10)"
    by code_simp
  from handicapHistory_algorithm [of 2 "[(''2024-01-01'', 45 / 32), (''2024-01-02'', 2), (''2024-01-03'', 3)]"
      3 "[45 / 32, 2, 3]"]
  have "entry_handicap (handicapHistory
        [(''2024-01-01'', 45 / 32), (''2024-01-02'', 2), (''2024-01-03'', 3)] ! 2)
      = fdiv (Math_round (fmul (historyHandicap [45 / 32, 2, 3]) 10)) 10"
    by simp
  then have "entry_handicap (handicapHistory
        [(''2024-01-01'', 45 / 32), (''2024-01-02'', 2), (''2024-01-03'', 3)] ! 2) = fl (13 / 10)"
    by (simp only: h r)
  with f h h5 c show ?thesis
    by simp
qed


section \<open>Claims about the effects\<close>

text \<open>
  C7. A failure inside \<open>updateUserHandicap\<close> is caught and logged and never reaches the
  caller: the function returns normally in every world and leaves the rounds as they
  are, and a rejected query or a rejected update adds one error to the log and changes
  no table. The answers of \<open>createRound\<close>, \<open>createMultiPlayerRound\<close> and \<open>deleteRound\<close> and the
  rounds they leave are the same in two worlds that differ only in the outcomes of the
  sends of the handicap update: whether the update fails changes neither the answer nor
  the stored rounds.
\<close>

theorem handicap_update_failure_swallowed:
  "fst (updateUserHandicap uid w) = Inr ()
   \<and> ROUNDS (snd (updateUserHandicap uid w)) = ROUNDS w
   \<and> (outcomes w (QueryCommand uid None None False (Some 20)) = True # rest \<longrightarrow>
        updateUserHandicap uid w =
          (Inr (), w\<lparr>outcomes := (outcomes w)(QueryCommand uid None None False (Some 20) := rest),
                    logged := logged w @ [LogError ''Error updating handicap:''
                                 (Rejected (QueryCommand uid None None False (Some 20)))]\<rparr>))
   \<and> (outcomes w (QueryCommand uid None None False (Some 20)) = [] \<and>
      ds = map scoreDifferential (runQuery uid None None False (Some 20) (ROUNDS w)) \<and>
      outcomes w (UpdateCommand uid (computeHandicap ds)) = True # rest \<longrightarrow>
        updateUserHandicap uid w =
          (Inr (), w\<lparr>outcomes := (outcomes w)(UpdateCommand uid (computeHandicap ds) := rest),
                    logged := logged w @ [LogError ''Error updating handicap:''
                                 (Rejected (UpdateCommand uid (computeHandicap ds)))]\<rparr>))
   \<and> (agree wa wb \<longrightarrow>
        fst (createRound uid rd wa) = fst (createRound uid rd wb)
        \<and> ROUNDS (snd (createRound uid rd wa)) = ROUNDS (snd (createRound uid rd wb)))
   \<and> (agreeUsers wa wb \<longrightarrow>
        fst (createMultiPlayerRound uid mrd wa) = fst (createMultiPlayerRound uid mrd wb)
        \<and> ROUNDS (snd (createMultiPlayerRound uid mrd wa))
            = ROUNDS (snd (createMultiPlayerRound uid mrd wb)))
   \<and> (agree wa wb \<longrightarrow>
        fst (deleteRound uid rid wa) = fst (deleteRound uid rid wb)
        \<and> ROUNDS (snd (deleteRound uid rid wa)) = ROUNDS (snd (deleteRound uid rid wb)))"
proof (intro conjI impI)
  from updateUserHandicap_never_rejects [of uid w]
  show "fst (updateUserHandicap uid w) = Inr ()"
    and "ROUNDS (snd (updateUserHandicap uid w)) = ROUNDS w"
    by (auto simp: frame_def)
next
  assume "outcomes w (QueryCommand uid None None False (Some 20)) = True # rest"
  then show "updateUserHandicap uid w =
          (Inr (), w\<lparr>outcomes := (outcomes w)(QueryCommand uid None None False (Some 20) := rest),
                    logged := logged w @ [LogError ''Error updating handicap:''
                                 (Rejected (QueryCommand uid None None False (Some 20)))]\<rparr>)"
    by (rule updateUserHandicap_query_rejected)
next
  assume "outcomes w (QueryCommand uid None None False (Some 20)) = [] \<and>
      ds = map scoreDifferential (runQuery uid None None False (Some 20) (ROUNDS w)) \<and>
      outcomes w (UpdateCommand uid (computeHandicap ds)) = True # rest"
  then show "updateUserHandicap uid w =
          (Inr (), w\<lparr>outcomes := (outcomes w)(UpdateCommand uid (computeHandicap ds) := rest),
                    logged := logged w @ [LogError ''Error updating handicap:''
                                 (Rejected (UpdateCommand uid (computeHandicap ds)))]\<rparr>)"
    using updateUserHandicap_update_rejected [of w uid ds rest] by blast
next
  assume a: "agree wa wb"
  from coupled_createRound [of uid rd] a
  show "fst (createRound uid rd wa) = fst (createRound uid rd wb)"
    and "ROUNDS (snd (createRound uid rd wa)) = ROUNDS (snd (createRound uid rd wb))"
    unfolding coupled_from_def by (auto simp: agree_def)
next
  assume a: "agreeUsers wa wb"
  from coupled_createMultiPlayerRound [of uid mrd] a
  show "fst (createMultiPlayerRound uid mrd wa) = fst (createMultiPlayerRound uid mrd wb)"
    and "ROUNDS (snd (createMultiPlayerRound uid mrd wa))
            = ROUNDS (snd (createMultiPlayerRound uid mrd wb))"
    unfolding coupled_from_def by (auto simp: agree_def)
next
  assume a: "agree wa wb"
  from coupled_deleteRound [of uid rid] a
  show "fst (deleteRound uid rid wa) = fst (deleteRound uid rid wb)"
    and "ROUNDS (snd (deleteRound uid rid wa)) = ROUNDS (snd (deleteRound uid rid wb))"
    unfolding coupled_from_def by (auto simp: agree_def)
qed

text \<open>
  In the failing world every first send of the handicap update is rejected: the rejected
  query is logged. In the second world the query succeeds and the update of u1 is
  rejected: it is logged and the handicap of u1 stays at 36. The three handlers answer
  201, 201 and 200 as in the world without rejections, and the rounds are stored or
  deleted.
\<close>

theorem handicap_update_failure_swallowed_witness:
  "agree exampleWorld failingWorld
   \<and> agreeUsers exampleWorld failingWorld
   \<and> agree (exampleWorld\<lparr>ROUNDS := [exampleRound]\<rparr>) (failingWorld\<lparr>ROUNDS := [exampleRound]\<rparr>)
   \<and> outcomes failingWorld (QueryCommand ''u1'' None None False (Some 20)) = True # []
   \<and> logged (snd (updateUserHandicap ''u1'' failingWorld))
        = [LogError ''Error updating handicap:''
             (Rejected (QueryCommand ''u1'' None None False (Some 20)))]
   \<and> outcomes updateFailingWorld (QueryCommand ''u1'' None None False (Some 20)) = []
   \<and> [] = map scoreDifferential
              (runQuery ''u1'' None None False (Some 20) (ROUNDS updateFailingWorld))
   \<and> outcomes updateFailingWorld (UpdateCommand ''u1'' (computeHandicap [])) = True # []
   \<and> logged (snd (updateUserHandicap ''u1'' updateFailingWorld))
        = [LogError ''Error updating handicap:'' (Rejected (UpdateCommand ''u1'' 54))]
   \<and> USERS (snd (updateUserHandicap ''u1'' updateFailingWorld)) ''u1'' = Some 36
   \<and> fst (createRound ''u1'' exampleRoundData failingWorld)
        = Inr (Response 201 (RoundBody exampleRound))
   \<and> fst (createRound ''u1'' exampleRoundData exampleWorld)
        = Inr (Response 201 (RoundBody exampleRound))
   \<and> ROUNDS (snd (createRound ''u1'' exampleRoundData exampleWorld)) = [exampleRound]
   \<and> USERS (snd (createRound ''u1'' exampleRoundData failingWorld)) ''u1'' = Some 36
   \<and> fst (createMultiPlayerRound ''u1'' exampleMultiPlayerRoundData exampleWorld)
        = Inr (Response 201 (RoundsCreated 2 [exampleRound\<lparr>players := [''u2'']\<rparr>, secondRound]))
   \<and> fst (deleteRound ''u1'' ''r1'' (exampleWorld\<lparr>ROUNDS := [exampleRound]\<rparr>))
        = Inr (Response 200 (RoundsDeleted 1))
   \<and> ROUNDS (snd (deleteRound ''u1'' ''r1'' (exampleWorld\<lparr>ROUNDS := [exampleRound]\<rparr>))) = []"
proof -
  have a: "agree exampleWorld failingWorld" "agreeUsers exampleWorld failingWorld"
    "agree (exampleWorld\<lparr>ROUNDS := [exampleRound]\<rparr>) (failingWorld\<lparr>ROUNDS := [exampleRound]\<rparr>)"
    by (simp_all add: agree_def agreeUsers_def failingWorld_def exampleWorld_def)
  have q: "outcomes failingWorld (QueryCommand ''u1'' None None False (Some 20)) = True # []"
    by (simp add: failingWorld_def exampleWorld_def)
  have u: "outcomes updateFailingWorld (QueryCommand ''u1'' None None False (Some 20)) = []"
    "[] = map scoreDifferential
              (runQuery ''u1'' None None False (Some 20) (ROUNDS updateFailingWorld))"
    "outcomes updateFailingWorld (UpdateCommand ''u1'' (computeHandicap [])) = True # []"
    by (simp_all add: updateFailingWorld_def exampleWorld_def computeHandicap_def runQuery_def
        userId_date_index_def)
  from handicap_update_failure_swallowed [where uid = "''u1''" and w = failingWorld
      and wa = exampleWorld and wb = failingWorld and rd = exampleRoundData
      and mrd = exampleMultiPlayerRoundData and rid = "''r1''" and rest = "[]" and ds = "[]"]
    a(1,2) q
  have c: "fst (createRound ''u1'' exampleRoundData exampleWorld)
          = fst (createRound ''u1'' exampleRoundData failingWorld)"
    "ROUNDS (snd (createRound ''u1'' exampleRoundData exampleWorld))
          = ROUNDS (snd (createRound ''u1'' exampleRoundData failingWorld))"
    "fst (createMultiPlayerRound ''u1'' exampleMultiPlayerRoundData exampleWorld)
          = fst (createMultiPlayerRound ''u1'' exampleMultiPlayerRoundData failingWorld)"
    "logged (snd (updateUserHandicap ''u1'' failingWorld))
        = [LogError ''Error updating handicap:''
             (Rejected (QueryCommand ''u1'' None None False (Some 20)))]"
    by (simp_all add: failingWorld_def exampleWorld_def)
  from handicap_update_failure_swallowed [where uid = "''u1''" and w = updateFailingWorld
      and wa = "exampleWorld\<lparr>ROUNDS := [exampleRound]\<rparr>"
      and wb = "failingWorld\<lparr>ROUNDS := [exampleRound]\<rparr>" and rd = exampleRoundData
      and mrd = exampleMultiPlayerRoundData and rid = "''r1''" and rest = "[]" and ds = "[]"]
    a(3) u
  have d: "fst (deleteRound ''u1'' ''r1'' (exampleWorld\<lparr>ROUNDS := [exampleRound]\<rparr>))
          = fst (deleteRound ''u1'' ''r1'' (failingWorld\<lparr>ROUNDS := [exampleRound]\<rparr>))"
    "ROUNDS (snd (deleteRound ''u1'' ''r1'' (exampleWorld\<lparr>ROUNDS := [exampleRound]\<rparr>)))
          = ROUNDS (snd (deleteRound ''u1'' ''r1'' (failingWorld\<lparr>ROUNDS := [exampleRound]\<rparr>)))"
    "logged (snd (updateUserHandicap ''u1'' updateFailingWorld))
        = [LogError ''Error updating handicap:'' (Rejected (UpdateCommand ''u1'' 54))]"
    "USERS (snd (updateUserHandicap ''u1'' updateFailingWorld)) ''u1'' = Some 36"
    by (simp_all add: updateFailingWorld_def exampleWorld_def computeHandicap_def)
  from a q u c d show ?thesis
    by (simp add: createRound_failingWorld createMultiPlayerRound_failingWorld
        deleteRound_failingWorld)
qed


section \<open>Claims about the order of the input and the range of the history\<close>

text \<open>
  C9. For a list of at most 20 differentials and every permutation of it, the handicap is
  the same: within the window of 20 entries that the query's \<^verbatim>\<open>Limit\<close> cuts, the result
  depends on the multiset of the values only. The sort fixes the order in which the
  binary64 sum is taken.
\<close>

theorem computeHandicap_permutation:
  "length xs \<le> 20 \<Longrightarrow> mset ys = mset xs \<Longrightarrow>
     computeHandicap (take 20 ys) = computeHandicap (take 20 xs)"
proof -
  assume len: "length xs \<le> 20" and perm: "mset ys = mset xs"
  from perm have "length ys = length xs"
    by (rule mset_eq_length)
  with len have "take 20 ys = ys" "take 20 xs = xs"
    by simp_all
  moreover from perm have "computeHandicap ys = computeHandicap xs"
    by (rule computeHandicap_mset)
  ultimately show ?thesis
    by simp
qed

text \<open>The differentials 5, 10, 15 in two orders.\<close>

theorem computeHandicap_permutation_witness:
  "length [5, 10, 15 :: rat] \<le> 20 \<and> mset [15, 5, 10 :: rat] = mset [5, 10, 15]
   \<and> computeHandicap (take 20 [15, 5, 10]) = computeHandicap (take 20 [5, 10, 15])"
  using computeHandicap_permutation [of "[5, 10, 15]" "[15, 5, 10]"] by simp

text \<open>
  C10. Every handicap of the history lies in the closed interval from 0 to 54: the entry
  is the clamped, scaled average rounded to one decimal, the clamp coming first and the
  rounding second, and rounding a value between 0 and 54 to one decimal stays between 0
  and 54. The same holds for the entries that \<open>getHandicapHistory\<close> answers.
\<close>

theorem handicapHistory_range:
  "(\<forall>e \<in> set (handicapHistory rounds). 0 \<le> entry_handicap e \<and> entry_handicap e \<le> 54)
   \<and> (\<forall>i < length rounds.
        entry_handicap (handicapHistory rounds ! i)
          = fdiv (Math_round (fmul (historyHandicap (map snd (take (i + 1) rounds))) 10)) 10
        \<and> 0 \<le> historyHandicap (map snd (take (i + 1) rounds))
        \<and> historyHandicap (map snd (take (i + 1) rounds)) \<le> 54)
   \<and> (0 \<le> x \<and> x \<le> 54 \<longrightarrow>
        0 \<le> fdiv (Math_round (fmul x 10)) 10 \<and> fdiv (Math_round (fmul x 10)) 10 \<le> 54)
   \<and> (fst (getHandicapHistory uid w) = Inr (Response 200 (History entries)) \<longrightarrow>
        (\<forall>e \<in> set entries. 0 \<le> entry_handicap e \<and> entry_handicap e \<le> 54))"
proof -
  have range: "0 \<le> entry_handicap e \<and> entry_handicap e \<le> 54"
    if "e \<in> set (handicapHistory rs)" for e rs
  proof -
    from that obtain i where "e = historyAt rs i"
      by (auto simp: handicapHistory_def)
    then have "entry_handicap e
        = fdiv (Math_round (fmul (historyHandicap (map snd (slice0 (i + 1) rs))) 10)) 10"
      by (simp add: historyAt_def Let_def)
    with round_tenth_range [of "historyHandicap (map snd (slice0 (i + 1) rs))"]
      historyHandicap_range [of "map snd (slice0 (i + 1) rs)"]
    show ?thesis by simp
  qed
  have nth: "entry_handicap (handicapHistory rounds ! i)
          = fdiv (Math_round (fmul (historyHandicap (map snd (take (i + 1) rounds))) 10)) 10
        \<and> 0 \<le> historyHandicap (map snd (take (i + 1) rounds))
        \<and> historyHandicap (map snd (take (i + 1) rounds)) \<le> 54"
    if "i < length rounds" for i
    using that historyHandicap_range [of "map snd (take (i + 1) rounds)"]
    by (simp add: handicapHistory_nth)
  have rnd: "0 \<le> fdiv (Math_round (fmul x 10)) 10 \<and> fdiv (Math_round (fmul x 10)) 10 \<le> 54"
    if "0 \<le> x \<and> x \<le> 54"
    using that round_tenth_range [of x] by simp
  have resp: "\<forall>e \<in> set entries. 0 \<le> entry_handicap e \<and> entry_handicap e \<le> 54"
    if "fst (getHandicapHistory uid w) = Inr (Response 200 (History entries))"
    using getHandicapHistory_body [OF that] range by blast
  from range [of _ rounds] nth rnd resp show ?thesis
    by blast
qed

text \<open>
  The history that \<open>getHandicapHistory\<close> answers for three rounds: 54, 54 and 4.8.
\<close>

theorem handicapHistory_range_witness:
  "fst (getHandicapHistory ''u1'' historyWorld) =
     Inr (Response 200 (History
       [\<lparr>entry_date = ''2024-01-01'', entry_handicap = 54, entry_scoreDifferential = 5\<rparr>,
        \<lparr>entry_date = ''2024-01-02'', entry_handicap = 54, entry_scoreDifferential = 10\<rparr>,
        \<lparr>entry_date = ''2024-01-03'', entry_handicap = fl (24 / 5), entry_scoreDifferential = 15\<rparr>]))
   \<and> (0 :: rat) \<le> fl (24 / 5) \<and> fl (24 / 5) \<le> 54
   \<and> map entry_handicap (handicapHistory
        [(''2024-01-01'', 5), (''2024-01-02'', 10), (''2024-01-03'', 15)]) = [54, 54, fl (24 / 5)]
   \<and> 0 \<le> entry_handicap (handicapHistory
        [(''2024-01-01'', 5), (''2024-01-02'', 10), (''2024-01-03'', 15)] ! 2)
   \<and> entry_handicap (handicapHistory
        [(''2024-01-01'', 5), (''2024-01-02'', 10), (''2024-01-03'', 15)] ! 2) \<le> 54"
proof -
  let ?rs = "[(''2024-01-01'', 5 :: rat), (''2024-01-02'', 10), (''2024-01-03'', 15)]"
  have m: "map entry_handicap (handicapHistory ?rs) = [54, 54, fl (24 / 5)]"
    by code_simp
  have mem: "handicapHistory ?rs ! 2 \<in> set (handicapHistory ?rs)"
    by (rule nth_mem) (simp add: handicapHistory_def)
  from handicapHistory_range [of ?rs] mem
  have rng: "0 \<le> entry_handicap (handicapHistory ?rs ! 2)
      \<and> entry_handicap (handicapHistory ?rs ! 2) \<le> 54"
    by blast
  have e: "entry_handicap (handicapHistory ?rs ! 2) = fl (24 / 5)"
    by code_simp
  from rng have v: "0 \<le> fl (24 / 5) \<and> fl (24 / 5) \<le> 54"
    by (simp only: e)
  from rng v m getHandicapHistory_historyWorld show ?thesis
    by blast
qed

end
